(* ===== verification/Prelude.thy ===== *)
theory Prelude
  imports Main "HOL-Library.Multiset"
begin

text \<open>
  Shared vocabulary of the development: the names of the model's basic types
  (runtime type identities, heap addresses), the Go runtime errors the modelled
  code can raise, the theorem collections the component theories feed, and
  generic lemmas on lists, maps and function iteration that several components
  use.
\<close>

section \<open>Basic types of the model\<close>

text \<open>
  A \<open>reflect.Type\<close> value is a pointer to a runtime type descriptor; two values
  denote the same type exactly when the pointers are equal.  The model names
  runtime types by natural numbers (\<open>tid\<close>) and keeps their descriptors in a
  type environment (theory \<open>GoTypes\<close>).  A Go pointer \<open>*TypeInfo\<close> is an address
  of the model's heap (\<open>ptr\<close>).
\<close>

type_synonym tid = nat
type_synonym ptr = nat

text \<open>
  Runtime panics of the Go code that the model keeps as values: a method call
  through a nil interface or a nil pointer, and an index of a slice outside
  its length.
\<close>

datatype go_error = NilDereference | IndexOutOfRange

named_theorems reg_simps "equations that evaluate the registry operations"
named_theorems step_simps "equations that evaluate one step of a thread"

section \<open>Lists updated at one position\<close>

text \<open>
  The concurrent model keeps one goroutine per list position and counts or sums
  over the list; a step updates one position.
\<close>

lemma two_le_length_filter:
  assumes "i < length xs" "j < length xs" "i \<noteq> j" "P (xs ! i)" "P (xs ! j)"
  shows "2 \<le> length (filter P xs)"
proof -
  have "{i, j} \<subseteq> {k. k < length xs \<and> P (xs ! k)}" using assms by auto
  then have "card {i, j} \<le> card {k. k < length xs \<and> P (xs ! k)}" by (rule card_mono [rotated]) simp
  with assms(3) show ?thesis by (simp add: length_filter_conv_card)
qed

lemma sum_list_map_update:
  "i < length xs \<Longrightarrow>
   sum_list (map f (xs[i := y])) + f (xs ! i) = sum_list (map f xs) + (f y :: 'b :: cancel_comm_monoid_add)"
proof (induction xs arbitrary: i)
  case (Cons x xs)
  then show ?case by (cases i) (simp_all add: add_ac)
qed simp

lemma list_all_updateI:
  "(\<And>j. j < length xs \<Longrightarrow> j \<noteq> i \<Longrightarrow> P (xs ! j)) \<Longrightarrow> P y \<Longrightarrow> list_all P (xs[i := y])"
  unfolding list_all_length by (metis length_list_update nth_list_update_eq nth_list_update_neq)

section \<open>Maps\<close>

lemma map_le_upd_fresh [intro]:
  "m k = None \<Longrightarrow> m \<subseteq>\<^sub>m m(k \<mapsto> v)"
  by (auto simp: map_le_def)

lemma map_le_SomeD:
  "m \<subseteq>\<^sub>m m' \<Longrightarrow> m k = Some v \<Longrightarrow> m' k = Some v"
  by (auto simp: map_le_def dom_def)

section \<open>Iterating a function\<close>

lemma funpow_fixpoint [simp]:
  "f x = x \<Longrightarrow> (f ^^ n) x = x"
  by (induction n) auto

end
