(* ===== verification/GoTypes.thy ===== *)
theory GoTypes
  imports Prelude
begin

text \<open>
  Runtime type descriptors as \<open>GetTypeInfo\<close> sees them through \<open>reflect\<close>:
  a type environment maps each type identity to its descriptor, whose kind the
  code tests (\<open>t.Kind() == reflect.Ptr\<close>, \<open>t.Kind() != reflect.Struct\<close>) and
  whose element type it follows (\<open>t.Elem()\<close>).  Go allows recursive pointer
  types (\<open>type P *P\<close>), so the environment is a graph, not a tree, and the
  pointer-stripping loop of \<open>GetTypeInfo\<close> (\<open>deref\<close>) need not end: it is a
  \<^theory_text>\<open>partial_function (option)\<close> whose value \<open>None\<close> is divergence.
\<close>

section \<open>Type descriptors\<close>

text \<open>
  A struct field declaration: Go name, raw \<open>json\<close> tag, whether it is embedded
  (\<open>f.Anonymous\<close>) and its type.  Consumed only by the field enumerator.
\<close>

datatype sfield = SField (sf_name: string) (sf_tag: string) (sf_embedded: bool) (sf_type: tid)

datatype tdesc =
    DPtr tid
  | DStruct "sfield list"
  | DSlice tid
  | DArray nat tid
  | DMap tid tid
  | DChan tid
  | DFunc
  | DInterface
  | DBasic string

datatype kind = KPtr | KStruct | KSlice | KArray | KMap | KChan | KFunc | KInterface | KBasic

type_synonym tenv = "tid \<Rightarrow> tdesc"

primrec kind_of :: "tdesc \<Rightarrow> kind" where
  "kind_of (DPtr _) = KPtr"
| "kind_of (DStruct _) = KStruct"
| "kind_of (DSlice _) = KSlice"
| "kind_of (DArray _ _) = KArray"
| "kind_of (DMap _ _) = KMap"
| "kind_of (DChan _) = KChan"
| "kind_of DFunc = KFunc"
| "kind_of DInterface = KInterface"
| "kind_of (DBasic _) = KBasic"

definition kind :: "tenv \<Rightarrow> tid \<Rightarrow> kind" where
  "kind env t = kind_of (env t)"

section \<open>Pointer stripping\<close>

text \<open>
  \<^verbatim>\<open>for t.Kind() == reflect.Ptr { t = t.Elem() }\<close>
\<close>

partial_function (option) deref :: "tenv \<Rightarrow> tid \<Rightarrow> tid option" where
  "deref env t = (case env t of DPtr e \<Rightarrow> deref env e | _ \<Rightarrow> Some t)"

declare deref.simps [code, reg_simps]

text \<open>One iteration of the loop body, and the loop condition.\<close>

definition elem_step :: "tenv \<Rightarrow> tid \<Rightarrow> tid" where
  "elem_step env t = (case env t of DPtr e \<Rightarrow> e | _ \<Rightarrow> t)"

definition is_ptr :: "tenv \<Rightarrow> tid \<Rightarrow> bool" where
  "is_ptr env t \<longleftrightarrow> kind env t = KPtr"

lemma is_ptr_iff: "is_ptr env t \<longleftrightarrow> (\<exists>e. env t = DPtr e)"
  by (cases "env t") (simp_all add: is_ptr_def kind_def)

lemma deref_ptr: "env t = DPtr e \<Longrightarrow> deref env t = deref env e"
  by (simp add: deref.simps)

lemma deref_not_ptr: "\<not> is_ptr env t \<Longrightarrow> deref env t = Some t"
  by (subst deref.simps) (auto simp: is_ptr_iff split: tdesc.splits)

lemma elem_step_ptr: "env t = DPtr e \<Longrightarrow> elem_step env t = e"
  by (simp add: elem_step_def)

lemma deref_elem_step: "is_ptr env t \<Longrightarrow> deref env t = deref env (elem_step env t)"
  by (auto simp: is_ptr_iff elem_step_def deref_ptr)

text \<open>What a returned descriptor is: a non-pointer reached by following \<open>Elem\<close>.\<close>

lemma deref_SomeD:
  assumes "deref env t = Some u"
  shows "\<not> is_ptr env u \<and> (\<exists>n. (elem_step env ^^ n) t = u)"
proof (rule deref.raw_induct [where P = "\<lambda>env t u. \<not> is_ptr env u \<and> (\<exists>n. (elem_step env ^^ n) t = u)",
       OF _ assms])
  fix f :: "tenv \<Rightarrow> tid \<Rightarrow> tid option" and env t u
  assume IH: "\<And>env t u. f env t = Some u \<Longrightarrow> \<not> is_ptr env u \<and> (\<exists>n. (elem_step env ^^ n) t = u)"
    and eq: "(case env t of DPtr e \<Rightarrow> f env e | _ \<Rightarrow> Some t) = Some u"
  show "\<not> is_ptr env u \<and> (\<exists>n. (elem_step env ^^ n) t = u)"
  proof (cases "env t")
    case (DPtr e)
    with eq have "f env e = Some u" by simp
    then obtain n where "\<not> is_ptr env u" "(elem_step env ^^ n) e = u" using IH by blast
    moreover have "(elem_step env ^^ Suc n) t = (elem_step env ^^ n) e"
      using DPtr by (simp add: funpow_Suc_right elem_step_def del: funpow.simps)
    ultimately show ?thesis by metis
  qed (use eq in \<open>auto simp: is_ptr_iff intro: exI[of _ 0]\<close>)
qed

text \<open>Termination: if some iterate of \<open>Elem\<close> is not a pointer, the loop ends.\<close>

lemma deref_terminates:
  "\<not> is_ptr env ((elem_step env ^^ n) t) \<Longrightarrow> \<exists>u. deref env t = Some u"
proof (induction n arbitrary: t)
  case 0
  then show ?case by (simp add: deref_not_ptr)
next
  case (Suc n)
  show ?case
  proof (cases "is_ptr env t")
    case True
    from Suc.prems have "\<not> is_ptr env ((elem_step env ^^ n) (elem_step env t))"
      by (simp add: funpow_Suc_right del: funpow.simps)
    then obtain u where "deref env (elem_step env t) = Some u" using Suc.IH by blast
    with True show ?thesis by (simp add: deref_elem_step)
  next
    case False
    then show ?thesis by (simp add: deref_not_ptr)
  qed
qed

lemma deref_None_iff:
  "deref env t = None \<longleftrightarrow> (\<forall>n. is_ptr env ((elem_step env ^^ n) t))"
proof
  assume none: "deref env t = None"
  show "\<forall>n. is_ptr env ((elem_step env ^^ n) t)"
    using deref_terminates[of env _ t] none by auto
next
  assume all: "\<forall>n. is_ptr env ((elem_step env ^^ n) t)"
  show "deref env t = None"
  proof (rule ccontr)
    assume "deref env t \<noteq> None"
    then obtain u where "deref env t = Some u" by blast
    from deref_SomeD[OF this] all show False by blast
  qed
qed

lemma deref_idem: "deref env t = Some u \<Longrightarrow> deref env u = Some u"
  using deref_SomeD deref_not_ptr by blast

lemma deref_self_iff: "deref env t = Some t \<longleftrightarrow> \<not> is_ptr env t"
  using deref_SomeD deref_not_ptr by blast

end
