(* ===== verification/FieldInfo.thy ===== *)
theory FieldInfo
  imports GoTypes "HOL-Library.List_Lexorder" "HOL-Library.Char_ord" "HOL-Library.Product_Lexorder"
begin

text \<open>
  The field records \<open>GetTypeInfo\<close> stores in \<open>TypeInfo.Fields\<close>, and the two
  collaborators it calls on them, which live in another file of the package
  (\<open>field_info.go\<close>) and are modelled from the spec (section 4.2): the field
  enumerator \<open>AppendFields(fields, parentIndex, t)\<close>, kept abstract as a
  parameter of type \<open>enumerator\<close>, and the ordering \<open>sortableFieldInfos\<close> used by
  \<open>sort.Sort\<close>, a total order with the wire name as primary key and the
  structural locator as deterministic tie-break.  The order is a
  \<^theory_text>\<open>linorder\<close> instance, so the library's sorting theory applies.
\<close>

section \<open>Field records\<close>

datatype field_info = FieldInfo (fi_index: "nat list") (fi_type: tid) (json_name: string)

type_synonym enumerator = "field_info list \<Rightarrow> nat list \<Rightarrow> tid \<Rightarrow> field_info list"

section \<open>The sortable order\<close>

definition fi_key :: "field_info \<Rightarrow> string \<times> nat list \<times> tid" where
  "fi_key f = (json_name f, fi_index f, fi_type f)"

instantiation field_info :: linorder
begin

definition less_eq_field_info :: "field_info \<Rightarrow> field_info \<Rightarrow> bool" where
  "less_eq_field_info f g \<longleftrightarrow> fi_key f \<le> fi_key g"

definition less_field_info :: "field_info \<Rightarrow> field_info \<Rightarrow> bool" where
  "less_field_info f g \<longleftrightarrow> fi_key f < fi_key g"

instance
proof (standard, goal_cases less refl trans antisym total)
  case (less x y)
  then show ?case by (auto simp: less_eq_field_info_def less_field_info_def)
next
  case (refl x)
  then show ?case by (simp add: less_eq_field_info_def)
next
  case (trans x y z)
  then show ?case by (auto simp: less_eq_field_info_def)
next
  case (antisym x y)
  then show ?case by (cases x; cases y) (auto simp: less_eq_field_info_def fi_key_def)
next
  case (total x y)
  then show ?case by (auto simp: less_eq_field_info_def)
qed

end

section \<open>Sorting\<close>

text \<open>\<^verbatim>\<open>sort.Sort(sortableFieldInfos(typeInfo.Fields))\<close>\<close>

definition sort_fields :: "field_info list \<Rightarrow> field_info list" where
  "sort_fields fs = sort fs"

section \<open>Name collisions\<close>

text \<open>
  The spec's collision pass (section 4.2): after sorting, one linear pass over
  adjacent entries looks for a repeated wire name.  This is what
  \<open>MultipleFields\<close> is meant to record; the code of \<open>GetTypeInfo\<close> never
  runs it (see \<open>TypeInfo.new_type_info\<close>).
\<close>

fun adjacent_dup :: "field_info list \<Rightarrow> bool" where
  "adjacent_dup (f # g # rest) = (json_name f = json_name g \<or> adjacent_dup (g # rest))"
| "adjacent_dup _ = False"

section \<open>Properties of the order and of sorting\<close>

lemma fi_key_inj: "fi_key f = fi_key g \<Longrightarrow> f = g"
  by (cases f; cases g) (simp add: fi_key_def)

text \<open>The wire name is the primary key: a smaller name sorts first.\<close>

lemma json_name_less_imp_less:
  "json_name f < json_name g \<Longrightarrow> f < g"
  by (simp add: less_field_info_def fi_key_def)

lemma le_imp_json_name_le:
  "f \<le> g \<Longrightarrow> json_name f \<le> json_name g"
  by (auto simp: less_eq_field_info_def fi_key_def)

lemma sorted_sort_fields: "sorted (sort_fields fs)"
  by (simp add: sort_fields_def)

lemma mset_sort_fields: "mset (sort_fields fs) = mset fs"
  by (simp add: sort_fields_def)

lemma sort_fields_unique:
  "mset ys = mset fs \<Longrightarrow> sorted ys \<Longrightarrow> sort_fields fs = ys"
  by (simp add: sort_fields_def properties_for_sort)

lemma sorted_json_names: "sorted fs \<Longrightarrow> sorted (map json_name fs)"
  by (induction fs) (auto intro: le_imp_json_name_le)

lemma adjacent_dup_iff_not_distinct:
  "sorted (map json_name fs) \<Longrightarrow> adjacent_dup fs \<longleftrightarrow> \<not> distinct (map json_name fs)"
proof (induction fs rule: adjacent_dup.induct)
  case (1 f g rest)
  then have IH: "adjacent_dup (g # rest) \<longleftrightarrow> \<not> distinct (map json_name (g # rest))" by simp
  from "1.prems" have le: "\<forall>h \<in> set (g # rest). json_name f \<le> json_name h" by auto
  from "1.prems" have le2: "\<forall>h \<in> set rest. json_name g \<le> json_name h" by auto
  show ?case
  proof
    assume "adjacent_dup (f # g # rest)"
    with IH show "\<not> distinct (map json_name (f # g # rest))" by auto
  next
    assume nd: "\<not> distinct (map json_name (f # g # rest))"
    show "adjacent_dup (f # g # rest)"
    proof (cases "json_name f \<in> json_name ` set (g # rest)")
      case True
      then obtain h where "h \<in> set (g # rest)" "json_name f = json_name h" by blast
      with le le2 have "json_name f = json_name g" by (auto intro: order.antisym)
      then show ?thesis by simp
    next
      case False
      with nd have "\<not> distinct (map json_name (g # rest))" by auto
      with IH show ?thesis by simp
    qed
  qed
qed simp_all

end
