(* ===== verification/TypeInfo.thy ===== *)
theory TypeInfo
  imports FieldInfo
begin

text \<open>
  The \<open>TypeInfo\<close> struct of \<open>src/jsoninfo/type_info.go\<close> and the operations
  that read or change one object: the computation of a fresh object on a cache
  miss (the body of \<open>GetTypeInfo\<close> between the lookup and the publication),
  \<open>FieldNames\<close> as the index loop the code runs, the append of
  \<open>AddExtension\<close>, and the \<open>Schema\<close> slot.  The two \<open>sync.RWMutex\<close> fields are
  not part of the record: their state is modelled per object in theory
  \<open>Concurrency\<close>.  \<open>'e\<close> stands for \<open>*ExtensionInfo\<close> and \<open>'s\<close> for the
  dynamic value of the \<open>Schema interface{}\<close> field (\<open>None\<close> is nil).
\<close>

section \<open>The record\<close>

record ('e, 's) type_info =
  multiple_fields :: bool
  ti_type :: tid
  ti_fields :: "field_info list"
  extensions :: "'e list"
  schema :: "'s option"

section \<open>A fresh object on a cache miss\<close>

text \<open>
  \<^verbatim>\<open>
  if t.Kind() != reflect.Struct {
      typeInfo = &TypeInfo{Type: t}
  } else {
      typeInfo = &TypeInfo{Type: t, Fields: make([]FieldInfo, 0, 16)}
      typeInfo.Fields = AppendFields(nil, nil, t)
      sort.Sort(sortableFieldInfos(typeInfo.Fields))
  }
  \<close>
  The zero value of every field not named in the composite literal is kept:
  \<open>MultipleFields\<close> is \<open>false\<close> and is assigned nowhere.
\<close>

definition zero_type_info :: "tid \<Rightarrow> ('e, 's) type_info" where
  "zero_type_info t =
     \<lparr>multiple_fields = False, ti_type = t, ti_fields = [], extensions = [], schema = None\<rparr>"

definition new_type_info :: "enumerator \<Rightarrow> tenv \<Rightarrow> tid \<Rightarrow> ('e, 's) type_info" where
  "new_type_info append_fields env t =
     (if kind env t \<noteq> KStruct then zero_type_info t
      else
        let ti0 = (zero_type_info t)\<lparr>ti_fields := []\<rparr>;
            ti1 = ti0\<lparr>ti_fields := append_fields [] [] t\<rparr>
        in ti1\<lparr>ti_fields := sort_fields (ti_fields ti1)\<rparr>)"

text \<open>What the fields of a fresh object are, as one expression.\<close>

definition computed_fields :: "enumerator \<Rightarrow> tenv \<Rightarrow> tid \<Rightarrow> field_info list" where
  "computed_fields append_fields env t =
     (if kind env t = KStruct then sort_fields (append_fields [] [] t) else [])"

text \<open>
  What spec section 4.2 asks of the same computation: after the sort, one
  pass over adjacent entries sets \<open>MultipleFields\<close> when two share a wire name.
\<close>

definition new_type_info_spec :: "enumerator \<Rightarrow> tenv \<Rightarrow> tid \<Rightarrow> ('e, 's) type_info" where
  "new_type_info_spec append_fields env t =
     (let ti = new_type_info append_fields env t
      in ti\<lparr>multiple_fields := adjacent_dup (ti_fields ti)\<rparr>)"

section \<open>FieldNames\<close>

text \<open>
  \<^verbatim>\<open>
  fields := typeInfo.Fields
  names := make([]string, len(fields))
  for i, field := range fields { names[i] = field.JSONName }
  return names
  \<close>
\<close>

fun fill_names :: "field_info list \<Rightarrow> nat \<Rightarrow> string list \<Rightarrow> string list" where
  "fill_names [] i names = names"
| "fill_names (f # fs) i names = fill_names fs (Suc i) (names[i := json_name f])"

definition field_names :: "('e, 's) type_info \<Rightarrow> string list" where
  "field_names ti =
     (let fs = ti_fields ti;
          names = replicate (length fs) ''''
      in fill_names fs 0 names)"

section \<open>Extensions and the schema slot\<close>

text \<open>\<^verbatim>\<open>typeInfo.extensions = append(typeInfo.extensions, ext)\<close>\<close>

definition append_extension :: "('e, 's) type_info \<Rightarrow> 'e \<Rightarrow> ('e, 's) type_info" where
  "append_extension ti ext = ti\<lparr>extensions := extensions ti @ [ext]\<rparr>"

text \<open>
  The \<open>Schema\<close> field is written and read by the schema builder under
  \<open>SchemaMutex\<close> (spec section 4.4); a write stores any interface value,
  nil included.
\<close>

definition set_schema :: "('e, 's) type_info \<Rightarrow> 's option \<Rightarrow> ('e, 's) type_info" where
  "set_schema ti v = ti\<lparr>schema := v\<rparr>"

definition get_schema :: "('e, 's) type_info \<Rightarrow> 's option" where
  "get_schema ti = schema ti"

section \<open>Field lemmas of the operations\<close>

lemma new_type_info_simps [simp]:
  "ti_type (new_type_info af env t) = t"
  "ti_fields (new_type_info af env t) = computed_fields af env t"
  "multiple_fields (new_type_info af env t) = False"
  "extensions (new_type_info af env t) = []"
  "schema (new_type_info af env t) = None"
  by (simp_all add: new_type_info_def computed_fields_def zero_type_info_def Let_def)

lemma fill_names_eq:
  "i + length fs = length names \<Longrightarrow> fill_names fs i names = take i names @ map json_name fs"
proof (induction fs arbitrary: i names)
  case Nil
  then show ?case by simp
next
  case (Cons f fs)
  then have "Suc i + length fs = length (names[i := json_name f])" by simp
  then have "fill_names fs (Suc i) (names[i := json_name f]) =
               take (Suc i) (names[i := json_name f]) @ map json_name fs"
    by (rule Cons.IH)
  moreover from Cons.prems have "take (Suc i) (names[i := json_name f]) = take i names @ [json_name f]"
    by (simp add: take_Suc_conv_app_nth)
  ultimately show ?case by simp
qed

lemma append_extension_simps [simp]:
  "ti_type (append_extension ti e) = ti_type ti"
  "ti_fields (append_extension ti e) = ti_fields ti"
  "multiple_fields (append_extension ti e) = multiple_fields ti"
  "extensions (append_extension ti e) = extensions ti @ [e]"
  "schema (append_extension ti e) = schema ti"
  by (simp_all add: append_extension_def)

lemma set_schema_simps [simp]:
  "ti_type (set_schema ti v) = ti_type ti"
  "ti_fields (set_schema ti v) = ti_fields ti"
  "multiple_fields (set_schema ti v) = multiple_fields ti"
  "extensions (set_schema ti v) = extensions ti"
  "schema (set_schema ti v) = v"
  by (simp_all add: set_schema_def)

section \<open>Properties\<close>

text \<open>
  C9 (equivalence).  The index loop of \<open>FieldNames\<close>, which fills a buffer of
  \<open>len(fields)\<close> empty strings, returns the wire names of the fields in their
  order, one per field, duplicates included.
\<close>

theorem field_names_eq_map:
  "field_names ti = map json_name (ti_fields ti)"
  by (simp add: field_names_def fill_names_eq)

text \<open>
  C27 (equivalence, a divergence from the spec).  The object the code builds
  on a miss is the one the spec describes exactly when the computed fields
  have pairwise distinct wire names: the two differ precisely on the types
  with a name collision, where the code leaves \<open>MultipleFields\<close> false.
\<close>

theorem new_type_info_eq_spec_iff:
  "new_type_info af env t = new_type_info_spec af env t \<longleftrightarrow>
   distinct (map json_name (computed_fields af env t))"
proof -
  have "sorted (map json_name (computed_fields af env t))"
    by (simp add: computed_fields_def sorted_json_names sorted_sort_fields)
  then have "adjacent_dup (computed_fields af env t) \<longleftrightarrow> \<not> distinct (map json_name (computed_fields af env t))"
    by (rule adjacent_dup_iff_not_distinct)
  moreover have "new_type_info af env t = new_type_info_spec af env t \<longleftrightarrow> \<not> adjacent_dup (computed_fields af env t)"
    by (cases "new_type_info af env t :: ('a, 'b) type_info")
       (auto simp: new_type_info_spec_def Let_def dest: arg_cong[where f = multiple_fields])
  ultimately show ?thesis by blast
qed

end
