(* ===== verification/Registry.thy ===== *)
theory Registry
  imports TypeInfo
begin

text \<open>
  The process-wide cache of \<open>src/jsoninfo/type_info.go\<close> run by one caller at a
  time: the map \<open>typeInfos\<close> from type to \<open>*TypeInfo\<close>, the heap that holds the
  \<open>TypeInfo\<close> objects, and the public operations on them as state-passing
  functions.  A call that loops forever is \<open>None\<close>; a runtime panic is an
  \<open>Inl\<close> value.  The calls of a client form a \<open>datatype\<close> with one step
  function, \<open>exec_call\<close>, which theory \<open>Concurrency\<close> reuses for its atomic
  steps.  The lemmas show that the state invariant \<open>reg_wf\<close> is kept by every
  call, that a published entry is never replaced by a later call of the same
  caller, and that the cache refines a memo table of computed field lists.
\<close>

section \<open>State\<close>

text \<open>
  \<^verbatim>\<open>
  var (
      typeInfos      = map[reflect.Type]*TypeInfo{}
      typeInfosMutex sync.RWMutex
  )
  \<close>
  The heap maps addresses to objects; \<open>next_ptr\<close> is the first unused address.
  The lock lives in \<open>Concurrency\<close>.
\<close>

record ('e, 's) registry =
  type_infos :: "tid \<rightharpoonup> ptr"
  heap :: "ptr \<rightharpoonup> ('e, 's) type_info"
  next_ptr :: ptr

definition empty_registry :: "('e, 's) registry" where
  "empty_registry = \<lparr>type_infos = Map.empty, heap = Map.empty, next_ptr = 0\<rparr>"

text \<open>\<open>&TypeInfo{...}\<close>: a fresh object at the first unused address.\<close>

definition alloc :: "('e, 's) type_info \<Rightarrow> ('e, 's) registry \<Rightarrow> ptr \<times> ('e, 's) registry" where
  "alloc ti st =
     (next_ptr st, st\<lparr>heap := (heap st)(next_ptr st \<mapsto> ti), next_ptr := Suc (next_ptr st)\<rparr>)"

section \<open>GetTypeInfo\<close>

text \<open>
  \<^verbatim>\<open>
  typeInfosMutex.RLock()
  typeInfo, exists := typeInfos[t]
  typeInfosMutex.RUnlock()
  \<close>
\<close>

definition lookup_type_info :: "('e, 's) registry \<Rightarrow> tid \<Rightarrow> ptr option" where
  "lookup_type_info st t = type_infos st t"

text \<open>
  \<^verbatim>\<open>
  typeInfosMutex.Lock()
  typeInfos[t] = typeInfo
  typeInfosMutex.Unlock()
  \<close>
  The store is unconditional: it does not look again whether another caller
  has published an object for \<open>t\<close> in the meantime.
\<close>

definition publish :: "tid \<Rightarrow> ptr \<Rightarrow> ('e, 's) registry \<Rightarrow> ('e, 's) registry" where
  "publish t p st = st\<lparr>type_infos := (type_infos st)(t \<mapsto> p)\<rparr>"

definition get_type_info ::
  "enumerator \<Rightarrow> tenv \<Rightarrow> tid \<Rightarrow> ('e, 's) registry \<Rightarrow> (ptr \<times> ('e, 's) registry) option" where
  "get_type_info append_fields env t st =
     (case deref env t of
        None \<Rightarrow> None
      | Some t \<Rightarrow>
          (case lookup_type_info st t of
             Some p \<Rightarrow> Some (p, st)
           | None \<Rightarrow>
               let (p, st) = alloc (new_type_info append_fields env t) st
               in Some (p, publish t p st)))"

text \<open>
  \<open>GetTypeInfoForValue(value interface{})\<close> calls \<open>reflect.TypeOf(value)\<close>,
  which is the nil \<open>reflect.Type\<close> for a nil interface; \<open>GetTypeInfo\<close> then
  calls \<open>t.Kind()\<close> on it and panics.
\<close>

datatype 'v iface = NilIface | Iface tid 'v

primrec type_of_value :: "'v iface \<Rightarrow> tid option" where
  "type_of_value NilIface = None"
| "type_of_value (Iface t _) = Some t"

definition get_type_info_for_value ::
  "enumerator \<Rightarrow> tenv \<Rightarrow> 'v iface \<Rightarrow> ('e, 's) registry \<Rightarrow> (go_error + ptr \<times> ('e, 's) registry) option" where
  "get_type_info_for_value append_fields env v st =
     (case type_of_value v of
        None \<Rightarrow> Some (Inl NilDereference)
      | Some t \<Rightarrow> map_option Inr (get_type_info append_fields env t st))"

section \<open>Methods on a TypeInfo pointer\<close>

text \<open>
  A method called on a nil \<open>*TypeInfo\<close> panics when it touches the mutex or a
  field; an address the heap does not hold stands for nil.
\<close>

definition add_extension :: "ptr \<Rightarrow> 'e \<Rightarrow> ('e, 's) registry \<Rightarrow> go_error + ('e, 's) registry" where
  "add_extension p ext st =
     (case heap st p of
        None \<Rightarrow> Inl NilDereference
      | Some ti \<Rightarrow> Inr (st\<lparr>heap := (heap st)(p \<mapsto> append_extension ti ext)\<rparr>))"

definition get_extensions :: "ptr \<Rightarrow> ('e, 's) registry \<Rightarrow> go_error + 'e list" where
  "get_extensions p st =
     (case heap st p of
        None \<Rightarrow> Inl NilDereference
      | Some ti \<Rightarrow> Inr (extensions ti))"

definition store_schema :: "ptr \<Rightarrow> 's option \<Rightarrow> ('e, 's) registry \<Rightarrow> go_error + ('e, 's) registry" where
  "store_schema p v st =
     (case heap st p of
        None \<Rightarrow> Inl NilDereference
      | Some ti \<Rightarrow> Inr (st\<lparr>heap := (heap st)(p \<mapsto> set_schema ti v)\<rparr>))"

definition load_schema :: "ptr \<Rightarrow> ('e, 's) registry \<Rightarrow> go_error + 's option" where
  "load_schema p st =
     (case heap st p of
        None \<Rightarrow> Inl NilDereference
      | Some ti \<Rightarrow> Inr (get_schema ti))"

definition field_names_of :: "ptr \<Rightarrow> ('e, 's) registry \<Rightarrow> go_error + string list" where
  "field_names_of p st =
     (case heap st p of
        None \<Rightarrow> Inl NilDereference
      | Some ti \<Rightarrow> Inr (field_names ti))"

section \<open>Calls of a client\<close>

datatype ('v, 'e, 's) call =
    CallGetTypeInfo tid
  | CallGetTypeInfoForValue "'v iface"
  | CallAddExtension ptr 'e
  | CallExtensions ptr
  | CallSetSchema ptr "'s option"
  | CallGetSchema ptr
  | CallFieldNames ptr

datatype ('e, 's) ret =
    RPtr ptr
  | RUnit
  | RExts "'e list"
  | RSchema "'s option"
  | RNames "string list"

fun exec_call ::
  "enumerator \<Rightarrow> tenv \<Rightarrow> ('v, 'e, 's) call \<Rightarrow> ('e, 's) registry
     \<Rightarrow> (go_error + ('e, 's) ret \<times> ('e, 's) registry) option" where
  "exec_call af env (CallGetTypeInfo t) st =
     map_option (\<lambda>(p, st'). Inr (RPtr p, st')) (get_type_info af env t st)"
| "exec_call af env (CallGetTypeInfoForValue v) st =
     map_option (map_sum id (\<lambda>(p, st'). (RPtr p, st'))) (get_type_info_for_value af env v st)"
| "exec_call af env (CallAddExtension p e) st =
     Some (map_sum id (\<lambda>st'. (RUnit, st')) (add_extension p e st))"
| "exec_call af env (CallExtensions p) st =
     Some (map_sum id (\<lambda>es. (RExts es, st)) (get_extensions p st))"
| "exec_call af env (CallSetSchema p v) st =
     Some (map_sum id (\<lambda>st'. (RUnit, st')) (store_schema p v st))"
| "exec_call af env (CallGetSchema p) st =
     Some (map_sum id (\<lambda>v. (RSchema v, st)) (load_schema p st))"
| "exec_call af env (CallFieldNames p) st =
     Some (map_sum id (\<lambda>ns. (RNames ns, st)) (field_names_of p st))"

text \<open>
  A sequence of calls by one caller; a panic ends the program, a call that
  never returns ends the run as \<open>None\<close>.
\<close>

fun run_calls ::
  "enumerator \<Rightarrow> tenv \<Rightarrow> ('v, 'e, 's) call list \<Rightarrow> ('e, 's) registry
     \<Rightarrow> (go_error + ('e, 's) ret list \<times> ('e, 's) registry) option" where
  "run_calls af env [] st = Some (Inr ([], st))"
| "run_calls af env (c # cs) st =
     (case exec_call af env c st of
        None \<Rightarrow> None
      | Some (Inl err) \<Rightarrow> Some (Inl err)
      | Some (Inr (r, st1)) \<Rightarrow>
          (case run_calls af env cs st1 of
             None \<Rightarrow> None
           | Some (Inl err) \<Rightarrow> Some (Inl err)
           | Some (Inr (rs, st2)) \<Rightarrow> Some (Inr (r # rs, st2))))"

declare get_type_info_def [reg_simps] get_type_info_for_value_def [reg_simps]
  add_extension_def [reg_simps] get_extensions_def [reg_simps] store_schema_def [reg_simps]
  load_schema_def [reg_simps] field_names_of_def [reg_simps] lookup_type_info_def [reg_simps]
  publish_def [reg_simps] alloc_def [reg_simps] empty_registry_def [reg_simps]

section \<open>Invariant\<close>

text \<open>
  Every published entry points to an object of the heap whose \<open>Type\<close> is the
  key, every object is well formed (its \<open>Type\<close> has no pointer to strip, its
  \<open>Fields\<close> are the sorted enumeration, and \<open>MultipleFields\<close> is set only when
  two of them share a wire name, as the comment of line 17 says), and every
  allocated address is below the allocation limit.
\<close>

definition obj_wf :: "enumerator \<Rightarrow> tenv \<Rightarrow> ('e, 's) type_info \<Rightarrow> bool" where
  "obj_wf af env ti \<longleftrightarrow>
     deref env (ti_type ti) = Some (ti_type ti) \<and>
     ti_fields ti = computed_fields af env (ti_type ti) \<and>
     (multiple_fields ti \<longrightarrow> \<not> distinct (map json_name (ti_fields ti)))"

definition reg_wf :: "enumerator \<Rightarrow> tenv \<Rightarrow> ('e, 's) registry \<Rightarrow> bool" where
  "reg_wf af env st \<longleftrightarrow>
     (\<forall>t p. type_infos st t = Some p \<longrightarrow> (\<exists>ti. heap st p = Some ti \<and> ti_type ti = t)) \<and>
     (\<forall>p ti. heap st p = Some ti \<longrightarrow> obj_wf af env ti) \<and>
     (\<forall>p. heap st p \<noteq> None \<longrightarrow> p < next_ptr st)"

section \<open>Abstract specification: a memo table\<close>

text \<open>
  What the cache promises: a partial map from normalised types to an object,
  its address and its field list; a hit returns the entry, a miss adds the
  value computed for the key.
\<close>

definition memo_get :: "('k \<Rightarrow> 'v) \<Rightarrow> ('k \<rightharpoonup> 'v) \<Rightarrow> 'k \<Rightarrow> 'v \<times> ('k \<rightharpoonup> 'v)" where
  "memo_get f m k = (case m k of Some v \<Rightarrow> (v, m) | None \<Rightarrow> (f k, m(k \<mapsto> f k)))"

definition abs_reg :: "('e, 's) registry \<Rightarrow> tid \<rightharpoonup> ptr \<times> field_info list" where
  "abs_reg st t = (case type_infos st t of None \<Rightarrow> None | Some p \<Rightarrow> map_option (\<lambda>ti. (p, ti_fields ti)) (heap st p))"

section \<open>Example inputs\<close>

text \<open>
  A small type universe: \<open>T\<close> (0) is a struct whose enumerator yields three
  fields, two of them with wire name \<open>a\<close>; 1 is \<open>*T\<close>, 4 is \<open>**T\<close>; 2 is
  \<open>string\<close>; 3 is \<open>type P *P\<close>.  A field's tag is given as the value of its
  \<open>json\<close> key.
\<close>

definition ex_env :: tenv where
  "ex_env t =
     (if t = 0 then DStruct [SField ''B'' ''b'' False 2, SField ''A'' '''' False 2,
                             SField ''C'' ''a'' False 2]
      else if t = 1 then DPtr 0
      else if t = 3 then DPtr 3
      else if t = 4 then DPtr 1
      else DBasic ''string'')"

definition ex_fields :: enumerator where
  "ex_fields acc parent t =
     (if t = 0 then acc @ [FieldInfo (parent @ [0]) 2 ''b'', FieldInfo (parent @ [1]) 2 ''a'',
                          FieldInfo (parent @ [2]) 2 ''a'']
      else acc)"

section \<open>Lemmas on GetTypeInfo\<close>

lemma get_type_info_None:
  "deref env t = None \<Longrightarrow> get_type_info af env t st = None"
  by (simp add: get_type_info_def)

lemma get_type_info_hit:
  "deref env t = Some u \<Longrightarrow> type_infos st u = Some p \<Longrightarrow> get_type_info af env t st = Some (p, st)"
  by (simp add: get_type_info_def lookup_type_info_def)

lemma get_type_info_miss:
  "deref env t = Some u \<Longrightarrow> type_infos st u = None \<Longrightarrow>
   get_type_info af env t st =
     Some (next_ptr st,
           st\<lparr>type_infos := (type_infos st)(u \<mapsto> next_ptr st),
              heap := (heap st)(next_ptr st \<mapsto> new_type_info af env u),
              next_ptr := Suc (next_ptr st)\<rparr>)"
  by (simp add: get_type_info_def lookup_type_info_def alloc_def publish_def)

lemma get_type_info_SomeE:
  assumes "get_type_info af env t st = Some (p, st')"
  obtains u where "deref env t = Some u" "type_infos st u = Some p" "st' = st"
  | u where "deref env t = Some u" "type_infos st u = None" "p = next_ptr st"
      "st' = st\<lparr>type_infos := (type_infos st)(u \<mapsto> next_ptr st),
              heap := (heap st)(next_ptr st \<mapsto> new_type_info af env u),
              next_ptr := Suc (next_ptr st)\<rparr>"
  using assms
  by (cases "deref env t"; cases "type_infos st (the (deref env t))")
     (auto simp: get_type_info_None get_type_info_hit get_type_info_miss)

lemma get_type_info_published:
  "get_type_info af env t st = Some (p, st') \<Longrightarrow> \<exists>u. deref env t = Some u \<and> type_infos st' u = Some p"
  by (erule get_type_info_SomeE) auto

lemma get_type_info_table_mono:
  "get_type_info af env t st = Some (p, st') \<Longrightarrow> type_infos st \<subseteq>\<^sub>m type_infos st'"
  by (erule get_type_info_SomeE) auto

lemma get_type_info_heap_mono:
  "reg_wf af env st \<Longrightarrow> get_type_info af env t st = Some (p, st') \<Longrightarrow> heap st \<subseteq>\<^sub>m heap st'"
  by (erule get_type_info_SomeE) (auto simp: reg_wf_def map_le_def)

lemma reg_wf_fresh:
  assumes "reg_wf af env st"
  shows "heap st (next_ptr st) = None" and "type_infos st t \<noteq> Some (next_ptr st)"
proof -
  show fresh: "heap st (next_ptr st) = None" using assms by (auto simp: reg_wf_def)
  show "type_infos st t \<noteq> Some (next_ptr st)"
  proof
    assume "type_infos st t = Some (next_ptr st)"
    with assms obtain ti where "heap st (next_ptr st) = Some ti" unfolding reg_wf_def by blast
    with fresh show False by simp
  qed
qed

lemma new_type_info_wf:
  "deref env u = Some u \<Longrightarrow> obj_wf af env (new_type_info af env u)"
  by (simp add: obj_wf_def)

lemma get_type_info_wf:
  assumes "reg_wf af env st" and "get_type_info af env t st = Some (p, st')"
  shows "reg_wf af env st'"
  using assms(2)
proof (cases rule: get_type_info_SomeE)
  case (1 u)
  with assms(1) show ?thesis by simp
next
  case (2 u)
  then have "deref env u = Some u" by (simp add: deref_idem)
  then have "obj_wf af env (new_type_info af env u)" by (rule new_type_info_wf)
  with assms(1) 2 reg_wf_fresh[OF assms(1)] show ?thesis by (auto simp: reg_wf_def)
qed

lemma get_type_info_obj:
  assumes "reg_wf af env st" and "get_type_info af env t st = Some (p, st')"
  shows "\<exists>u ti. deref env t = Some u \<and> type_infos st' u = Some p \<and> heap st' p = Some ti \<and>
                ti_type ti = u \<and> obj_wf af env ti"
proof -
  obtain u where u: "deref env t = Some u" "type_infos st' u = Some p"
    using get_type_info_published[OF assms(2)] by blast
  have "reg_wf af env st'" using assms by (rule get_type_info_wf)
  with u show ?thesis by (fastforce simp: reg_wf_def)
qed

section \<open>Lemmas on the methods and on runs of calls\<close>

lemma obj_wf_append_extension [simp]:
  "obj_wf af env (append_extension ti e) = obj_wf af env ti"
  by (simp add: obj_wf_def)

lemma obj_wf_set_schema [simp]:
  "obj_wf af env (set_schema ti v) = obj_wf af env ti"
  by (simp add: obj_wf_def)

lemma obj_wf_extensions_upd [simp]:
  "obj_wf af env (ti\<lparr>extensions := xs\<rparr>) = obj_wf af env ti"
  by (simp add: obj_wf_def)

lemma add_extension_Inr:
  "heap st p = Some ti \<Longrightarrow>
   add_extension p e st = Inr (st\<lparr>heap := (heap st)(p \<mapsto> append_extension ti e)\<rparr>)"
  by (simp add: add_extension_def)

lemma store_schema_Inr:
  "heap st p = Some ti \<Longrightarrow>
   store_schema p v st = Inr (st\<lparr>heap := (heap st)(p \<mapsto> set_schema ti v)\<rparr>)"
  by (simp add: store_schema_def)

lemma heap_update_wf:
  assumes "reg_wf af env st" and "heap st p = Some ti" and "ti_type ti' = ti_type ti"
    and "obj_wf af env ti' = obj_wf af env ti"
  shows "reg_wf af env (st\<lparr>heap := (heap st)(p \<mapsto> ti')\<rparr>)"
  using assms unfolding reg_wf_def by (fastforce split: if_splits)

lemma add_extension_wf:
  "reg_wf af env st \<Longrightarrow> add_extension p e st = Inr st' \<Longrightarrow>
   reg_wf af env st' \<and> type_infos st' = type_infos st"
  by (auto simp: add_extension_def heap_update_wf split: option.splits)

lemma store_schema_wf:
  "reg_wf af env st \<Longrightarrow> store_schema p v st = Inr st' \<Longrightarrow>
   reg_wf af env st' \<and> type_infos st' = type_infos st"
  by (auto simp: store_schema_def heap_update_wf split: option.splits)

lemma get_type_info_for_value_SomeE:
  assumes "get_type_info_for_value af env v st = Some (Inr (p, st'))"
  obtains t w where "v = Iface t w" "get_type_info af env t st = Some (p, st')"
  using assms by (cases v) (auto simp: get_type_info_for_value_def)

lemma exec_call_effect:
  assumes "exec_call af env c st = Some (Inr (r, st'))"
  shows "st' = st \<or> (\<exists>t p. get_type_info af env t st = Some (p, st')) \<or>
         (\<exists>p e. add_extension p e st = Inr st') \<or> (\<exists>p v. store_schema p v st = Inr st')"
proof (cases c)
  case (CallGetTypeInfoForValue v)
  from assms CallGetTypeInfoForValue obtain z where
    z: "get_type_info_for_value af env v st = Some z" and
    zr: "map_sum id (\<lambda>(p, st'). (RPtr p, st')) z = Inr (r, st')"
    by auto
  from zr obtain p where "z = Inr (p, st')" by (cases z) auto
  with z have "get_type_info_for_value af env v st = Some (Inr (p, st'))" by simp
  then show ?thesis by (rule get_type_info_for_value_SomeE) blast
qed (use assms in \<open>auto simp: map_sum_def split: sum.splits\<close>)

lemma add_extension_table:
  "add_extension p e st = Inr st' \<Longrightarrow> type_infos st' = type_infos st"
  by (auto simp: add_extension_def split: option.splits)

lemma store_schema_table:
  "store_schema p v st = Inr st' \<Longrightarrow> type_infos st' = type_infos st"
  by (auto simp: store_schema_def split: option.splits)

lemma exec_call_table_mono:
  "exec_call af env c st = Some (Inr (r, st')) \<Longrightarrow> type_infos st \<subseteq>\<^sub>m type_infos st'"
  by (drule exec_call_effect)
     (auto dest: add_extension_table store_schema_table get_type_info_table_mono)

lemma exec_call_wf:
  "reg_wf af env st \<Longrightarrow> exec_call af env c st = Some (Inr (r, st')) \<Longrightarrow> reg_wf af env st'"
  by (drule exec_call_effect)
     (auto dest: add_extension_wf store_schema_wf get_type_info_wf)

lemma run_calls_table_mono:
  "run_calls af env cs st = Some (Inr (rs, st')) \<Longrightarrow> type_infos st \<subseteq>\<^sub>m type_infos st'"
proof (induction cs arbitrary: st rs)
  case (Cons c cs)
  from Cons.prems obtain r st1 rs1 where
    "exec_call af env c st = Some (Inr (r, st1))" and "run_calls af env cs st1 = Some (Inr (rs1, st'))"
    by (auto split: option.splits sum.splits)
  with Cons.IH show ?case by (blast intro: map_le_trans exec_call_table_mono)
qed simp

lemma abs_reg_fresh_upd:
  assumes "reg_wf af env st" and "type_infos st u = None"
  shows "abs_reg (st\<lparr>type_infos := (type_infos st)(u \<mapsto> next_ptr st),
                   heap := (heap st)(next_ptr st \<mapsto> ti), next_ptr := Suc (next_ptr st)\<rparr>) =
         (abs_reg st)(u \<mapsto> (next_ptr st, ti_fields ti))"
proof
  fix x
  show "abs_reg (st\<lparr>type_infos := (type_infos st)(u \<mapsto> next_ptr st),
                   heap := (heap st)(next_ptr st \<mapsto> ti), next_ptr := Suc (next_ptr st)\<rparr>) x =
        ((abs_reg st)(u \<mapsto> (next_ptr st, ti_fields ti))) x"
    using reg_wf_fresh(2)[OF assms(1), of x] by (auto simp: abs_reg_def split: option.splits)
qed

lemma alloc_wf:
  assumes "reg_wf af env r" and "obj_wf af env ti"
  shows "reg_wf af env (snd (alloc ti r)) \<and> fst (alloc ti r) = next_ptr r \<and>
         heap (snd (alloc ti r)) (next_ptr r) = Some ti \<and> type_infos (snd (alloc ti r)) = type_infos r"
  using assms reg_wf_fresh[OF assms(1)] by (auto simp: alloc_def reg_wf_def)

lemma publish_wf:
  "reg_wf af env r \<Longrightarrow> heap r p = Some ti \<Longrightarrow> ti_type ti = t \<Longrightarrow> reg_wf af env (publish t p r)"
  by (auto simp: publish_def reg_wf_def)

lemma get_type_info_None_iff:
  "get_type_info af env t st = None \<longleftrightarrow> deref env t = None"
  by (cases "deref env t"; cases "type_infos st (the (deref env t))")
     (auto simp: get_type_info_None get_type_info_hit get_type_info_miss)

lemma reg_wf_empty: "reg_wf af env empty_registry"
  by (simp add: reg_wf_def empty_registry_def)

section \<open>Properties of GetTypeInfo\<close>

text \<open>
  C1 (identity stability).  Once \<open>GetTypeInfo\<close> has returned an object for a
  type, every later call of the same caller, after any sequence of calls that
  does not diverge or panic, returns that same object for the type and for every
  type that normalises to the same descriptor, and leaves the state unchanged.
\<close>

theorem get_type_info_stable:
  assumes "get_type_info af env t st = Some (p, st1)"
    and "run_calls af env cs st1 = Some (Inr (rs, st2))"
    and "deref env t' = deref env t"
  shows "get_type_info af env t' st2 = Some (p, st2)"
proof -
  obtain u where u: "deref env t = Some u" "type_infos st1 u = Some p"
    using get_type_info_published[OF assms(1)] by blast
  have "type_infos st2 u = Some p"
    using run_calls_table_mono[OF assms(2)] u(2) by (rule map_le_SomeD)
  with u assms(3) show ?thesis by (simp add: get_type_info_hit)
qed

theorem get_type_info_stable_witness:
  "\<exists>st1 rs st2. get_type_info ex_fields ex_env 1 (empty_registry :: (nat, nat) registry) = Some (0, st1) \<and>
     run_calls ex_fields ex_env [CallAddExtension 0 (7::nat), CallGetTypeInfo 2] st1 = Some (Inr (rs, st2)) \<and>
     deref ex_env 4 = deref ex_env 1 \<and>
     get_type_info ex_fields ex_env 4 st2 = Some (0, st2)"
proof -
  have "\<exists>st1 rs st2. get_type_info ex_fields ex_env 1 (empty_registry :: (nat, nat) registry) = Some (0, st1) \<and>
     run_calls ex_fields ex_env [CallAddExtension 0 (7::nat), CallGetTypeInfo 2] st1 = Some (Inr (rs, st2))"
    by (simp add: reg_simps ex_env_def)
  moreover have "deref ex_env 4 = deref ex_env 1" by (simp add: deref.simps ex_env_def)
  ultimately show ?thesis using get_type_info_stable by blast
qed

text \<open>
  C2 (normalisation).  \<open>GetTypeInfo\<close> of a pointer type \<open>*T\<close> behaves exactly as
  \<open>GetTypeInfo\<close> of \<open>T\<close>: same result object, same new state.
\<close>

theorem get_type_info_deref_ptr:
  "env t = DPtr e \<Longrightarrow> get_type_info af env t st = get_type_info af env e st"
  by (simp add: get_type_info_def deref_ptr)

theorem get_type_info_deref_ptr_witness:
  "ex_env 4 = DPtr 1 \<and>
   get_type_info ex_fields ex_env 4 (empty_registry :: (nat, nat) registry) =
   get_type_info ex_fields ex_env 1 empty_registry"
proof -
  have h: "ex_env 4 = DPtr 1" by (simp add: ex_env_def)
  show ?thesis using h get_type_info_deref_ptr[where env = ex_env and t = 4 and e = 1, OF h] by simp
qed

text \<open>
  C3 (functional correctness and termination).  From a well-formed cache, for a
  type whose pointer chain ends in \<open>u\<close>, \<open>GetTypeInfo\<close> returns, publishes under
  \<open>u\<close> an object whose \<open>Type\<close> is \<open>u\<close>, whose \<open>Fields\<close> are the sorted
  enumeration for a struct and empty otherwise.
\<close>

theorem get_type_info_computes:
  assumes "reg_wf af env st" and "deref env t = Some u"
  shows "\<exists>p st' ti. get_type_info af env t st = Some (p, st') \<and> type_infos st' u = Some p \<and>
           heap st' p = Some ti \<and> ti_type ti = u \<and>
           ti_fields ti = computed_fields af env u"
proof -
  obtain p st' where res: "get_type_info af env t st = Some (p, st')"
    using assms(2) get_type_info_None_iff[of af env t st] by fastforce
  from get_type_info_obj[OF assms(1) res] assms(2) obtain ti where
    "type_infos st' u = Some p" "heap st' p = Some ti" "ti_type ti = u" "obj_wf af env ti"
    by auto
  with res show ?thesis by (auto simp: obj_wf_def)
qed

theorem get_type_info_computes_witness:
  "reg_wf ex_fields ex_env (empty_registry :: (nat, nat) registry) \<and> deref ex_env 4 = Some 0 \<and>
   (\<exists>p st' ti. get_type_info ex_fields ex_env 4 (empty_registry :: (nat, nat) registry) = Some (p, st') \<and>
      type_infos st' 0 = Some p \<and> heap st' p = Some ti \<and> ti_type ti = 0 \<and>
      ti_fields ti = computed_fields ex_fields ex_env 0)"
proof -
  have h1: "reg_wf ex_fields ex_env (empty_registry :: (nat, nat) registry)" by (simp add: reg_wf_def empty_registry_def)
  have h2: "deref ex_env 4 = Some 0" by (simp add: deref.simps ex_env_def)
  show ?thesis using get_type_info_computes[OF h1 h2] h1 h2 by blast
qed

text \<open>
  C4 (termination).  \<open>GetTypeInfo\<close> fails to return exactly when every iterate
  of \<open>Elem\<close> from the argument is again a pointer type, i.e. when the pointer
  chain never reaches a non-pointer type.
\<close>

theorem get_type_info_diverges_iff:
  "get_type_info af env t st = None \<longleftrightarrow> (\<forall>n. is_ptr env ((elem_step env ^^ n) t))"
  by (simp add: get_type_info_None_iff deref_None_iff)

theorem get_type_info_diverges_iff_witness:
  "\<not> (\<forall>n. is_ptr ex_env ((elem_step ex_env ^^ n) 4)) \<and>
   get_type_info ex_fields ex_env 4 (empty_registry :: (nat, nat) registry) \<noteq> None"
proof -
  have "\<not> is_ptr ex_env ((elem_step ex_env ^^ 2) 4)"
    by (simp add: elem_step_def is_ptr_def kind_def ex_env_def numeral_2_eq_2)
  then have h: "\<not> (\<forall>n. is_ptr ex_env ((elem_step ex_env ^^ n) 4))" by blast
  show ?thesis using h get_type_info_diverges_iff[of ex_fields ex_env 4 "empty_registry :: (nat, nat) registry"] by simp
qed

section \<open>Properties of the cache and the methods\<close>

text \<open>
  C5 (invariant).  The cache invariant \<open>reg_wf\<close> holds after every sequence of
  client calls that does not diverge or panic, from any state where it holds:
  every published entry points to an object of its type, every object has the
  computed fields and sets \<open>MultipleFields\<close> only on a wire-name collision, and
  allocation stays fresh.
\<close>

theorem run_calls_wf:
  "reg_wf af env st \<Longrightarrow> run_calls af env cs st = Some (Inr (rs, st')) \<Longrightarrow> reg_wf af env st'"
proof (induction cs arbitrary: st rs)
  case (Cons c cs)
  from Cons.prems(2) obtain r st1 rs1 where
    "exec_call af env c st = Some (Inr (r, st1))" and "run_calls af env cs st1 = Some (Inr (rs1, st'))"
    by (auto split: option.splits sum.splits)
  with Cons.IH Cons.prems(1) show ?case by (blast intro: exec_call_wf)
qed simp

theorem run_calls_wf_witness:
  "reg_wf ex_fields ex_env (empty_registry :: (nat, nat) registry) \<and>
   (\<exists>rs st'. run_calls ex_fields ex_env
      [CallGetTypeInfo 4, CallAddExtension 0 1, CallGetTypeInfo 2, CallSetSchema 1 (Some 5),
       CallGetTypeInfoForValue (Iface 1 (0::nat))] (empty_registry :: (nat, nat) registry) =
        Some (Inr (rs, st')) \<and> reg_wf ex_fields ex_env st')"
proof -
  have h1: "reg_wf ex_fields ex_env (empty_registry :: (nat, nat) registry)" by (rule reg_wf_empty)
  have "\<exists>rs st'. run_calls ex_fields ex_env
      [CallGetTypeInfo 4, CallAddExtension 0 1, CallGetTypeInfo 2, CallSetSchema 1 (Some 5),
       CallGetTypeInfoForValue (Iface 1 (0::nat))] (empty_registry :: (nat, nat) registry) =
        Some (Inr (rs, st'))"
    by (simp add: reg_simps ex_env_def)
  then obtain rs st' where h2: "run_calls ex_fields ex_env
      [CallGetTypeInfo 4, CallAddExtension 0 1, CallGetTypeInfo 2, CallSetSchema 1 (Some 5),
       CallGetTypeInfoForValue (Iface 1 (0::nat))] (empty_registry :: (nat, nat) registry) =
        Some (Inr (rs, st'))" by blast
  show ?thesis using run_calls_wf[OF h1 h2] h1 h2 by blast
qed

text \<open>
  C6 (refinement).  Seen through \<open>abs_reg\<close>, which keeps for each published
  type the object's address and its field list, \<open>GetTypeInfo\<close> is the
  memo-table lookup \<open>memo_get\<close>: on a hit it returns the cached object itself,
  and on a miss a fresh object at the next address with the computed fields,
  which it adds to the table.
\<close>

theorem get_type_info_refines_memo:
  assumes "reg_wf af env st" and "get_type_info af env t st = Some (p, st')" and "deref env t = Some u"
  shows "map_option (\<lambda>ti. (p, ti_fields ti)) (heap st' p) =
           Some (fst (memo_get (\<lambda>u. (next_ptr st, computed_fields af env u)) (abs_reg st) u)) \<and>
         abs_reg st' = snd (memo_get (\<lambda>u. (next_ptr st, computed_fields af env u)) (abs_reg st) u)"
  using assms(2)
proof (cases rule: get_type_info_SomeE)
  case (1 u')
  with assms(3) have u: "u' = u" by simp
  from 1 u assms(1) obtain ti where "heap st p = Some ti" "ti_type ti = u" "obj_wf af env ti"
    unfolding reg_wf_def by blast
  with 1 u show ?thesis by (simp add: memo_get_def abs_reg_def obj_wf_def)
next
  case (2 u')
  with assms(3) have u: "u' = u" by simp
  with 2 have "abs_reg st u = None" by (simp add: abs_reg_def)
  with 2 u abs_reg_fresh_upd[OF assms(1)] show ?thesis by (simp add: memo_get_def)
qed

theorem get_type_info_refines_memo_witness:
  "reg_wf ex_fields ex_env (empty_registry :: (nat, nat) registry) \<and>
   (\<exists>p st'. get_type_info ex_fields ex_env 4 (empty_registry :: (nat, nat) registry) = Some (p, st') \<and>
      deref ex_env 4 = Some 0 \<and>
      map_option (\<lambda>ti. (p, ti_fields ti)) (heap st' p) =
        Some (fst (memo_get (\<lambda>u. (next_ptr (empty_registry :: (nat, nat) registry), computed_fields ex_fields ex_env u))
          (abs_reg (empty_registry :: (nat, nat) registry)) 0)) \<and>
      abs_reg st' = snd (memo_get (\<lambda>u. (next_ptr (empty_registry :: (nat, nat) registry), computed_fields ex_fields ex_env u))
          (abs_reg (empty_registry :: (nat, nat) registry)) 0))"
proof -
  have h1: "reg_wf ex_fields ex_env (empty_registry :: (nat, nat) registry)" by (rule reg_wf_empty)
  have h3: "deref ex_env 4 = Some 0" by (simp add: deref.simps ex_env_def)
  have "\<exists>p st'. get_type_info ex_fields ex_env 4 (empty_registry :: (nat, nat) registry) = Some (p, st')"
    by (simp add: reg_simps ex_env_def)
  then obtain p st' where h2: "get_type_info ex_fields ex_env 4 (empty_registry :: (nat, nat) registry) = Some (p, st')"
    by blast
  show ?thesis using get_type_info_refines_memo[OF h1 h2 h3] h1 h2 h3 by blast
qed

text \<open>
  C7 (determinism).  The \<open>Fields\<close> of a struct's object are the one sorted
  permutation of the enumeration: any sorted list with the same elements equals
  them, so the order does not depend on the sorting algorithm.
\<close>

theorem get_type_info_fields_unique:
  assumes "reg_wf af env st" and "get_type_info af env t st = Some (p, st')" and "heap st' p = Some ti"
    and "kind env (ti_type ti) = KStruct" and "sorted ys" and "mset ys = mset (af [] [] (ti_type ti))"
  shows "ti_fields ti = ys"
proof -
  from get_type_info_obj[OF assms(1,2)] assms(3) have "obj_wf af env ti" by auto
  with assms(4) have "ti_fields ti = sort_fields (af [] [] (ti_type ti))"
    by (simp add: obj_wf_def computed_fields_def)
  also have "\<dots> = ys" using assms(5,6) by (simp add: sort_fields_unique)
  finally show ?thesis .
qed

theorem get_type_info_fields_unique_witness:
  "\<exists>st' ti. reg_wf ex_fields ex_env (empty_registry :: (nat, nat) registry) \<and>
     get_type_info ex_fields ex_env 0 (empty_registry :: (nat, nat) registry) = Some (0, st') \<and>
     heap st' 0 = Some ti \<and> kind ex_env (ti_type ti) = KStruct \<and>
     sorted [FieldInfo [1] 2 ''a'', FieldInfo [2] 2 ''a'', FieldInfo [0] 2 ''b''] \<and>
     mset [FieldInfo [1] 2 ''a'', FieldInfo [2] 2 ''a'', FieldInfo [0] 2 ''b''] = mset (ex_fields [] [] (ti_type ti)) \<and>
     ti_fields ti = [FieldInfo [1] 2 ''a'', FieldInfo [2] 2 ''a'', FieldInfo [0] 2 ''b'']"
proof -
  have h1: "reg_wf ex_fields ex_env (empty_registry :: (nat, nat) registry)" by (rule reg_wf_empty)
  have "\<exists>st' ti. get_type_info ex_fields ex_env 0 (empty_registry :: (nat, nat) registry) = Some (0, st') \<and>
     heap st' 0 = Some ti \<and> ti_type ti = 0"
    by (simp add: reg_simps ex_env_def)
  then obtain st' ti where h2: "get_type_info ex_fields ex_env 0 (empty_registry :: (nat, nat) registry) = Some (0, st')"
      and h3: "heap st' 0 = Some ti" and ty: "ti_type ti = 0"
    by blast
  have h4: "kind ex_env (ti_type ti) = KStruct" by (simp add: ty kind_def ex_env_def)
  have h5: "sorted [FieldInfo [1] 2 ''a'', FieldInfo [2] 2 ''a'', FieldInfo [0] 2 ''b'']"
    by (simp add: less_eq_field_info_def fi_key_def)
  have h6: "mset [FieldInfo [1] 2 ''a'', FieldInfo [2] 2 ''a'', FieldInfo [0] 2 ''b''] = mset (ex_fields [] [] (ti_type ti))"
    by (simp add: ty ex_fields_def add_mset_commute)
  show ?thesis using get_type_info_fields_unique[OF h1 h2 h3 h4 h5 h6] h1 h2 h3 h4 h5 h6 by blast
qed

text \<open>
  C8 (functional).  An object for a type whose kind is not \<open>Struct\<close> has no
  fields and \<open>MultipleFields\<close> false.
\<close>

theorem get_type_info_non_struct:
  assumes "reg_wf af env st" and "get_type_info af env t st = Some (p, st')" and "heap st' p = Some ti"
    and "kind env (ti_type ti) \<noteq> KStruct"
  shows "ti_fields ti = [] \<and> \<not> multiple_fields ti"
  using get_type_info_obj[OF assms(1,2)] assms(3,4) by (auto simp: obj_wf_def computed_fields_def)

theorem get_type_info_non_struct_witness:
  "\<exists>st' ti. reg_wf ex_fields ex_env (empty_registry :: (nat, nat) registry) \<and>
     get_type_info ex_fields ex_env 2 (empty_registry :: (nat, nat) registry) = Some (0, st') \<and>
     heap st' 0 = Some ti \<and> kind ex_env (ti_type ti) \<noteq> KStruct \<and> ti_fields ti = [] \<and> \<not> multiple_fields ti"
proof -
  have h1: "reg_wf ex_fields ex_env (empty_registry :: (nat, nat) registry)" by (rule reg_wf_empty)
  have "\<exists>st' ti. get_type_info ex_fields ex_env 2 (empty_registry :: (nat, nat) registry) = Some (0, st') \<and>
     heap st' 0 = Some ti \<and> ti_type ti = 2"
    by (simp add: reg_simps ex_env_def)
  then obtain st' ti where h2: "get_type_info ex_fields ex_env 2 (empty_registry :: (nat, nat) registry) = Some (0, st')"
      and h3: "heap st' 0 = Some ti" and ty: "ti_type ti = 2"
    by blast
  have h4: "kind ex_env (ti_type ti) \<noteq> KStruct" by (simp add: ty kind_def ex_env_def)
  show ?thesis using get_type_info_non_struct[OF h1 h2 h3 h4] h1 h2 h3 h4 by blast
qed

text \<open>
  C10 (functional).  On an allocated object, \<open>N\<close> calls of \<open>AddExtension\<close>
  followed by \<open>Extensions\<close> return the previous extensions followed by the
  \<open>N\<close> new ones in call order: none is lost, none is duplicated.
\<close>

theorem extensions_accumulate:
  assumes "heap st p = Some ti"
  shows "\<exists>st'. run_calls af env (map (CallAddExtension p) es @ [CallExtensions p] :: ('v, 'e, 's) call list) st =
                Some (Inr (replicate (length es) RUnit @ [RExts (extensions ti @ es)], st'))"
  using assms
proof (induction es arbitrary: st ti)
  case Nil
  then show ?case by (simp add: get_extensions_def)
next
  case (Cons e es)
  let ?st1 = "st\<lparr>heap := (heap st)(p \<mapsto> append_extension ti e)\<rparr>"
  have "heap ?st1 p = Some (append_extension ti e)" by simp
  from Cons.IH[OF this] obtain st' where
    "run_calls af env (map (CallAddExtension p) es @ [CallExtensions p] :: ('v, 'e, 's) call list) ?st1 =
       Some (Inr (replicate (length es) RUnit @ [RExts (extensions ti @ e # es)], st'))"
    by auto
  with Cons.prems show ?case by (simp add: add_extension_Inr)
qed

theorem extensions_accumulate_witness:
  "\<exists>st1 st'. get_type_info ex_fields ex_env 2 (empty_registry :: (nat, nat) registry) = Some (0, st1) \<and>
     heap st1 0 \<noteq> None \<and>
     run_calls ex_fields ex_env (map (CallAddExtension 0) [10, 20, 30] @ [CallExtensions 0] :: (nat, nat, nat) call list) st1 =
       Some (Inr ([RUnit, RUnit, RUnit, RExts [10, 20, 30]], st'))"
proof -
  have "\<exists>st1 ti. get_type_info ex_fields ex_env 2 (empty_registry :: (nat, nat) registry) = Some (0, st1) \<and>
     heap st1 0 = Some ti \<and> extensions ti = []"
    by (simp add: reg_simps ex_env_def)
  then obtain st1 ti where g: "get_type_info ex_fields ex_env 2 (empty_registry :: (nat, nat) registry) = Some (0, st1)"
      and h: "heap st1 0 = Some ti" and e: "extensions ti = []"
    by blast
  obtain st' where
    "run_calls ex_fields ex_env (map (CallAddExtension 0) [10, 20, 30] @ [CallExtensions 0] :: (nat, nat, nat) call list) st1 =
       Some (Inr (replicate (length [10, 20, 30 :: nat]) RUnit @ [RExts (extensions ti @ [10, 20, 30])], st'))"
    using extensions_accumulate[OF h, of ex_fields ex_env "[10, 20, 30]"] by blast
  with g h e show ?thesis by (simp add: numeral_3_eq_3)
qed

end
