(* ===== verification/Concurrency.thy ===== *)
theory Concurrency
  imports Registry
begin

text \<open>
  Concurrent callers of the cache.  Each goroutine runs a list of calls
  (\<open>GetTypeInfo(t)\<close>, then \<open>AddExtension(e)\<close> or \<open>Extensions()\<close> on the object it
  got last); its position inside the current call is a program counter whose
  constructors follow the statements of \<open>src/jsoninfo/type_info.go\<close> that touch
  shared state: one loop iteration of the pointer stripping, each lock and
  unlock, the map read, the computation with its allocation, the map write, and
  the read and the write of \<open>typeInfo.extensions\<close> in the \<open>append\<close> of
  \<open>AddExtension\<close>.  The shared state is the sequential \<open>registry\<close> of theory
  \<open>Registry\<close> together with the state of \<open>typeInfosMutex\<close> and of each object's
  \<open>mutex\<close>; the steps reuse \<open>lookup_type_info\<close>, \<open>alloc\<close>, \<open>new_type_info\<close> and
  \<open>publish\<close>.  One step of one goroutine is \<open>tstep\<close>; the interleaving of all
  goroutines is the relation \<open>cstep\<close>, whose reflexive transitive closure gives
  the reachable states; \<open>run_sched\<close> runs a given schedule.

  A \<open>sync.RWMutex\<close> is a reader count and a writer flag: \<open>RLock\<close> waits while a
  writer holds it, \<open>Lock\<close> waits while a writer or a reader holds it.  Go's
  mutex also makes new readers wait behind a waiting writer; leaving that out
  only adds schedules, so the safety results hold for Go's mutex, and the
  schedules of the counterexamples involve no contended lock at all.
\<close>

section \<open>Read/write locks\<close>

record rwlock =
  readers :: nat
  writer :: bool

definition rw_free :: rwlock where
  "rw_free = \<lparr>readers = 0, writer = False\<rparr>"

definition can_rlock :: "rwlock \<Rightarrow> bool" where
  "can_rlock l \<longleftrightarrow> \<not> writer l"

definition can_lock :: "rwlock \<Rightarrow> bool" where
  "can_lock l \<longleftrightarrow> \<not> writer l \<and> readers l = 0"

definition rlock :: "rwlock \<Rightarrow> rwlock" where
  "rlock l = l\<lparr>readers := Suc (readers l)\<rparr>"

definition runlock :: "rwlock \<Rightarrow> rwlock" where
  "runlock l = l\<lparr>readers := readers l - 1\<rparr>"

definition wlock :: "rwlock \<Rightarrow> rwlock" where
  "wlock l = l\<lparr>writer := True\<rparr>"

definition wunlock :: "rwlock \<Rightarrow> rwlock" where
  "wunlock l = l\<lparr>writer := False\<rparr>"

section \<open>Goroutines\<close>

datatype 'e tcall = TGetTypeInfo tid | TAddExtension 'e | TExtensions

datatype 'e tret = RetPtr tid ptr | RetAdded ptr 'e | RetExts ptr "'e list"

datatype 'e pc =
    Idle
  | GLoop tid
  | GRLock tid
  | GRead tid
  | GRUnlock tid "ptr option"
  | GCompute tid
  | GLock tid ptr
  | GWrite tid ptr
  | GUnlock tid ptr
  | ALock ptr 'e
  | ARead ptr 'e
  | AWrite ptr 'e "'e list"
  | AUnlock ptr 'e
  | XRLock ptr
  | XRead ptr
  | XRUnlock ptr "'e list"
  | Panicked go_error

text \<open>
  A goroutine: its program counter, the calls still to make, its local
  variable \<open>ti\<close> (the last \<open>*TypeInfo\<close> it obtained, nil at first) and the
  results its calls returned, in order.
\<close>

record 'e thread =
  tpc :: "'e pc"
  tprog :: "'e tcall list"
  ti_local :: "ptr option"
  tlog :: "'e tret list"

record ('e, 's) shared =
  creg :: "('e, 's) registry"
  reg_lock :: rwlock
  obj_lock :: "ptr \<Rightarrow> rwlock"

record ('e, 's) cstate =
  sh :: "('e, 's) shared"
  threads :: "'e thread list"

definition return_ptr :: "'e thread \<Rightarrow> tid \<Rightarrow> ptr \<Rightarrow> 'e thread" where
  "return_ptr th t p = th\<lparr>tpc := Idle, ti_local := Some p, tlog := tlog th @ [RetPtr t p]\<rparr>"

definition set_obj_lock :: "ptr \<Rightarrow> (rwlock \<Rightarrow> rwlock) \<Rightarrow> ('e, 's) shared \<Rightarrow> ('e, 's) shared" where
  "set_obj_lock p f s = s\<lparr>obj_lock := (obj_lock s)(p := f (obj_lock s p))\<rparr>"

definition set_heap :: "ptr \<Rightarrow> ('e, 's) type_info \<Rightarrow> ('e, 's) shared \<Rightarrow> ('e, 's) shared" where
  "set_heap p ti s = s\<lparr>creg := (creg s)\<lparr>heap := (heap (creg s))(p \<mapsto> ti)\<rparr>\<rparr>"

definition panic :: "'e thread \<Rightarrow> 'e thread" where
  "panic th = th\<lparr>tpc := Panicked NilDereference\<rparr>"

text \<open>
  One step of one goroutine.  \<open>None\<close>: it waits for a lock, has finished, or
  has panicked.  A panic inside \<open>AddExtension\<close> or \<open>Extensions\<close> after the
  lock is taken runs the deferred unlock.
\<close>

fun tstep :: "enumerator \<Rightarrow> tenv \<Rightarrow> 'e thread \<Rightarrow> ('e, 's) shared \<Rightarrow> ('e thread \<times> ('e, 's) shared) option" where
  "tstep af env th s =
     (case tpc th of
        Idle \<Rightarrow>
          (case tprog th of
             [] \<Rightarrow> None
           | TGetTypeInfo t # cs \<Rightarrow> Some (th\<lparr>tpc := GLoop t, tprog := cs\<rparr>, s)
           | TAddExtension e # cs \<Rightarrow>
               Some (th\<lparr>tpc := (case ti_local th of None \<Rightarrow> Panicked NilDereference | Some p \<Rightarrow> ALock p e),
                        tprog := cs\<rparr>, s)
           | TExtensions # cs \<Rightarrow>
               Some (th\<lparr>tpc := (case ti_local th of None \<Rightarrow> Panicked NilDereference | Some p \<Rightarrow> XRLock p),
                        tprog := cs\<rparr>, s))
      | GLoop t \<Rightarrow>
          Some (th\<lparr>tpc := (if is_ptr env t then GLoop (elem_step env t) else GRLock t)\<rparr>, s)
      | GRLock t \<Rightarrow>
          (if can_rlock (reg_lock s) then Some (th\<lparr>tpc := GRead t\<rparr>, s\<lparr>reg_lock := rlock (reg_lock s)\<rparr>)
           else None)
      | GRead t \<Rightarrow> Some (th\<lparr>tpc := GRUnlock t (lookup_type_info (creg s) t)\<rparr>, s)
      | GRUnlock t r \<Rightarrow>
          Some ((case r of Some p \<Rightarrow> return_ptr th t p | None \<Rightarrow> th\<lparr>tpc := GCompute t\<rparr>),
                s\<lparr>reg_lock := runlock (reg_lock s)\<rparr>)
      | GCompute t \<Rightarrow>
          (let (p, r) = alloc (new_type_info af env t) (creg s)
           in Some (th\<lparr>tpc := GLock t p\<rparr>, s\<lparr>creg := r\<rparr>))
      | GLock t p \<Rightarrow>
          (if can_lock (reg_lock s) then Some (th\<lparr>tpc := GWrite t p\<rparr>, s\<lparr>reg_lock := wlock (reg_lock s)\<rparr>)
           else None)
      | GWrite t p \<Rightarrow> Some (th\<lparr>tpc := GUnlock t p\<rparr>, s\<lparr>creg := publish t p (creg s)\<rparr>)
      | GUnlock t p \<Rightarrow> Some (return_ptr th t p, s\<lparr>reg_lock := wunlock (reg_lock s)\<rparr>)
      | ALock p e \<Rightarrow>
          (case heap (creg s) p of
             None \<Rightarrow> Some (panic th, s)
           | Some _ \<Rightarrow>
               if can_lock (obj_lock s p) then Some (th\<lparr>tpc := ARead p e\<rparr>, set_obj_lock p wlock s)
               else None)
      | ARead p e \<Rightarrow>
          (case heap (creg s) p of
             None \<Rightarrow> Some (panic th, set_obj_lock p wunlock s)
           | Some ti \<Rightarrow> Some (th\<lparr>tpc := AWrite p e (extensions ti)\<rparr>, s))
      | AWrite p e xs \<Rightarrow>
          (case heap (creg s) p of
             None \<Rightarrow> Some (panic th, set_obj_lock p wunlock s)
           | Some ti \<Rightarrow> Some (th\<lparr>tpc := AUnlock p e\<rparr>, set_heap p (ti\<lparr>extensions := xs @ [e]\<rparr>) s))
      | AUnlock p e \<Rightarrow>
          Some (th\<lparr>tpc := Idle, tlog := tlog th @ [RetAdded p e]\<rparr>, set_obj_lock p wunlock s)
      | XRLock p \<Rightarrow>
          (case heap (creg s) p of
             None \<Rightarrow> Some (panic th, s)
           | Some _ \<Rightarrow>
               if can_rlock (obj_lock s p) then Some (th\<lparr>tpc := XRead p\<rparr>, set_obj_lock p rlock s)
               else None)
      | XRead p \<Rightarrow>
          (case heap (creg s) p of
             None \<Rightarrow> Some (panic th, set_obj_lock p runlock s)
           | Some ti \<Rightarrow> Some (th\<lparr>tpc := XRUnlock p (extensions ti)\<rparr>, s))
      | XRUnlock p xs \<Rightarrow>
          Some (th\<lparr>tpc := Idle, tlog := tlog th @ [RetExts p xs]\<rparr>, set_obj_lock p runlock s)
      | Panicked _ \<Rightarrow> None)"

section \<open>Interleaving\<close>

definition thread_step :: "enumerator \<Rightarrow> tenv \<Rightarrow> nat \<Rightarrow> ('e, 's) cstate \<Rightarrow> ('e, 's) cstate option" where
  "thread_step af env i c =
     (if i < length (threads c) then
        map_option (\<lambda>(th, s). \<lparr>sh = s, threads = (threads c)[i := th]\<rparr>) (tstep af env (threads c ! i) (sh c))
      else None)"

inductive cstep :: "enumerator \<Rightarrow> tenv \<Rightarrow> ('e, 's) cstate \<Rightarrow> ('e, 's) cstate \<Rightarrow> bool" where
  "thread_step af env i c = Some c' \<Longrightarrow> cstep af env c c'"

definition init_thread :: "'e tcall list \<Rightarrow> 'e thread" where
  "init_thread cs = \<lparr>tpc = Idle, tprog = cs, ti_local = None, tlog = []\<rparr>"

definition init_state :: "'e tcall list list \<Rightarrow> ('e, 's) cstate" where
  "init_state progs =
     \<lparr>sh = \<lparr>creg = empty_registry, reg_lock = rw_free, obj_lock = (\<lambda>_. rw_free)\<rparr>,
      threads = map init_thread progs\<rparr>"

fun run_sched :: "enumerator \<Rightarrow> tenv \<Rightarrow> nat list \<Rightarrow> ('e, 's) cstate \<Rightarrow> ('e, 's) cstate option" where
  "run_sched af env [] c = Some c"
| "run_sched af env (i # is) c =
     (case thread_step af env i c of None \<Rightarrow> None | Some c' \<Rightarrow> run_sched af env is c')"

section \<open>Invariants\<close>

text \<open>Which program counters hold which lock.\<close>

fun reg_reader :: "'e pc \<Rightarrow> bool" where
  "reg_reader (GRead _) = True"
| "reg_reader (GRUnlock _ _) = True"
| "reg_reader _ = False"

fun reg_writer :: "'e pc \<Rightarrow> bool" where
  "reg_writer (GWrite _ _) = True"
| "reg_writer (GUnlock _ _) = True"
| "reg_writer _ = False"

fun obj_reader :: "ptr \<Rightarrow> 'e pc \<Rightarrow> bool" where
  "obj_reader p (XRead q) = (q = p)"
| "obj_reader p (XRUnlock q _) = (q = p)"
| "obj_reader p _ = False"

fun obj_writer :: "ptr \<Rightarrow> 'e pc \<Rightarrow> bool" where
  "obj_writer p (ARead q _) = (q = p)"
| "obj_writer p (AWrite q _ _) = (q = p)"
| "obj_writer p (AUnlock q _) = (q = p)"
| "obj_writer p _ = False"

definition holders :: "('e pc \<Rightarrow> bool) \<Rightarrow> 'e thread list \<Rightarrow> nat" where
  "holders P ths = length (filter (\<lambda>th. P (tpc th)) ths)"

text \<open>
  A lock agrees with the goroutines when its reader count is the number of
  goroutines inside a read section, its writer flag says whether one is inside
  a write section, at most one is, and then no reader is.
\<close>

definition lock_agrees :: "('e pc \<Rightarrow> bool) \<Rightarrow> ('e pc \<Rightarrow> bool) \<Rightarrow> rwlock \<Rightarrow> 'e thread list \<Rightarrow> bool" where
  "lock_agrees R W l ths \<longleftrightarrow>
     readers l = holders R ths \<and> (writer l \<longleftrightarrow> 0 < holders W ths) \<and> holders W ths \<le> 1 \<and>
     (0 < holders W ths \<longrightarrow> holders R ths = 0)"

definition locks_inv :: "('e, 's) cstate \<Rightarrow> bool" where
  "locks_inv c \<longleftrightarrow>
     lock_agrees reg_reader reg_writer (reg_lock (sh c)) (threads c) \<and>
     (\<forall>p. lock_agrees (obj_reader p) (obj_writer p) (obj_lock (sh c) p) (threads c))"

text \<open>
  What a goroutine may rely on about the objects it refers to: a type it is
  about to look up has no pointer left to strip, a pointer it holds or has
  returned is allocated, and one it is about to publish for \<open>t\<close> has \<open>Type\<close> \<open>t\<close>.
\<close>

definition obj_of_type :: "('e, 's) registry \<Rightarrow> ptr \<Rightarrow> tid \<Rightarrow> bool" where
  "obj_of_type r p t \<longleftrightarrow> (\<exists>ti. heap r p = Some ti \<and> ti_type ti = t)"

fun pc_ok :: "tenv \<Rightarrow> ('e, 's) registry \<Rightarrow> 'e pc \<Rightarrow> bool" where
  "pc_ok env r (GRLock t) = (deref env t = Some t)"
| "pc_ok env r (GRead t) = (deref env t = Some t)"
| "pc_ok env r (GRUnlock t ro) = (deref env t = Some t \<and> (case ro of None \<Rightarrow> True | Some p \<Rightarrow> obj_of_type r p t))"
| "pc_ok env r (GCompute t) = (deref env t = Some t)"
| "pc_ok env r (GLock t p) = obj_of_type r p t"
| "pc_ok env r (GWrite t p) = obj_of_type r p t"
| "pc_ok env r (GUnlock t p) = obj_of_type r p t"
| "pc_ok env r (ALock p e) = (heap r p \<noteq> None)"
| "pc_ok env r (ARead p e) = (heap r p \<noteq> None)"
| "pc_ok env r (AWrite p e xs) = (heap r p \<noteq> None)"
| "pc_ok env r (AUnlock p e) = (heap r p \<noteq> None)"
| "pc_ok env r (XRLock p) = (heap r p \<noteq> None)"
| "pc_ok env r (XRead p) = (heap r p \<noteq> None)"
| "pc_ok env r (XRUnlock p xs) = (heap r p \<noteq> None)"
| "pc_ok env r _ = True"

fun ret_ok :: "('e, 's) registry \<Rightarrow> 'e tret \<Rightarrow> bool" where
  "ret_ok r (RetPtr t p) = obj_of_type r p t"
| "ret_ok r (RetAdded p e) = (heap r p \<noteq> None)"
| "ret_ok r (RetExts p xs) = (heap r p \<noteq> None)"

definition thread_ok :: "tenv \<Rightarrow> ('e, 's) registry \<Rightarrow> 'e thread \<Rightarrow> bool" where
  "thread_ok env r th \<longleftrightarrow>
     pc_ok env r (tpc th) \<and> (case ti_local th of None \<Rightarrow> True | Some p \<Rightarrow> heap r p \<noteq> None) \<and>
     list_all (ret_ok r) (tlog th)"

definition objs_inv :: "enumerator \<Rightarrow> tenv \<Rightarrow> ('e, 's) cstate \<Rightarrow> bool" where
  "objs_inv af env c \<longleftrightarrow> reg_wf af env (creg (sh c)) \<and> list_all (thread_ok env (creg (sh c))) (threads c)"

text \<open>
  The extensions a goroutine has added to object \<open>p\<close>: those its completed
  \<open>AddExtension\<close> calls returned for, and the one it has written but not yet
  unlocked.
\<close>

fun added_log :: "ptr \<Rightarrow> 'e tret list \<Rightarrow> 'e list" where
  "added_log p [] = []"
| "added_log p (RetAdded q e # rs) = (if q = p then e # added_log p rs else added_log p rs)"
| "added_log p (_ # rs) = added_log p rs"

fun pending_add :: "ptr \<Rightarrow> 'e pc \<Rightarrow> 'e multiset" where
  "pending_add p (AUnlock q e) = (if q = p then {#e#} else {#})"
| "pending_add p _ = {#}"

definition added_by :: "ptr \<Rightarrow> 'e thread \<Rightarrow> 'e multiset" where
  "added_by p th = mset (added_log p (tlog th)) + pending_add p (tpc th)"

text \<open>
  A goroutine between the read and the write of \<open>typeInfo.extensions\<close> holds
  the value it read.
\<close>

definition aw_ok :: "('e, 's) registry \<Rightarrow> 'e thread \<Rightarrow> bool" where
  "aw_ok r th \<longleftrightarrow>
     (case tpc th of AWrite p e xs \<Rightarrow> map_option extensions (heap r p) = Some xs | _ \<Rightarrow> True)"

definition ext_inv :: "('e, 's) cstate \<Rightarrow> bool" where
  "ext_inv c \<longleftrightarrow>
     (\<forall>p ti. heap (creg (sh c)) p = Some ti \<longrightarrow>
        mset (extensions ti) = sum_list (map (added_by p) (threads c))) \<and>
     list_all (aw_ok (creg (sh c))) (threads c)"

definition cinv :: "enumerator \<Rightarrow> tenv \<Rightarrow> ('e, 's) cstate \<Rightarrow> bool" where
  "cinv af env c \<longleftrightarrow> locks_inv c \<and> objs_inv af env c \<and> ext_inv c"

text \<open>A goroutine that is done: no call left, or panicked.\<close>

definition finished :: "'e thread \<Rightarrow> bool" where
  "finished th \<longleftrightarrow> (case tpc th of Idle \<Rightarrow> tprog th = [] | Panicked _ \<Rightarrow> True | _ \<Rightarrow> False)"

text \<open>A step keeps every object and its \<open>Type\<close>.\<close>

definition heap_ext :: "('e, 's) registry \<Rightarrow> ('e, 's) registry \<Rightarrow> bool" where
  "heap_ext r r' \<longleftrightarrow> (\<forall>p ti. heap r p = Some ti \<longrightarrow> (\<exists>ti'. heap r' p = Some ti' \<and> ti_type ti' = ti_type ti))"

declare tstep.simps [simp del]

declare thread_step_def [step_simps] tstep.simps [step_simps] init_state_def [step_simps] init_thread_def [step_simps] return_ptr_def [step_simps] lookup_type_info_def [step_simps]
  alloc_def [step_simps] publish_def [step_simps] can_rlock_def [step_simps] can_lock_def [step_simps] rlock_def [step_simps] runlock_def [step_simps]
  wlock_def [step_simps] wunlock_def [step_simps] set_obj_lock_def [step_simps] set_heap_def [step_simps] panic_def [step_simps] rw_free_def [step_simps] empty_registry_def [step_simps]

section \<open>The lock invariant\<close>

lemma holders_update_add:
  "i < length ths \<Longrightarrow>
   holders P (ths[i := th']) + (if P (tpc (ths ! i)) then 1 else 0) =
   holders P ths + (if P (tpc th') then 1 else 0)"
proof (induction ths arbitrary: i)
  case (Cons th ths)
  then show ?case by (cases i) (simp_all add: holders_def)
qed simp

lemma holders_same:
  "i < length ths \<Longrightarrow> P (tpc th') = P (tpc (ths ! i)) \<Longrightarrow> holders P (ths[i := th']) = holders P ths"
  using holders_update_add[of i ths P th'] by (simp split: if_splits)

lemma holders_inc:
  "i < length ths \<Longrightarrow> \<not> P (tpc (ths ! i)) \<Longrightarrow> P (tpc th') \<Longrightarrow> holders P (ths[i := th']) = Suc (holders P ths)"
  using holders_update_add[of i ths P th'] by simp

lemma holders_dec:
  "i < length ths \<Longrightarrow> P (tpc (ths ! i)) \<Longrightarrow> \<not> P (tpc th') \<Longrightarrow> Suc (holders P (ths[i := th'])) = holders P ths"
  using holders_update_add[of i ths P th'] by simp

lemma lock_agrees_neutral:
  assumes "lock_agrees R W l ths" "i < length ths"
    and "R (tpc th') = R (tpc (ths ! i))" "W (tpc th') = W (tpc (ths ! i))"
  shows "lock_agrees R W l (ths[i := th'])"
proof -
  have "holders R (ths[i := th']) = holders R ths" using assms(2,3) by (rule holders_same)
  moreover have "holders W (ths[i := th']) = holders W ths" using assms(2,4) by (rule holders_same)
  ultimately show ?thesis using assms(1) by (simp add: lock_agrees_def)
qed

lemma lock_agrees_rlock:
  assumes "lock_agrees R W l ths" "i < length ths" "can_rlock l"
    and "\<not> R (tpc (ths ! i))" "R (tpc th')" "\<not> W (tpc (ths ! i))" "\<not> W (tpc th')"
  shows "lock_agrees R W (rlock l) (ths[i := th'])"
proof -
  have r: "holders R (ths[i := th']) = Suc (holders R ths)" using assms(2,4,5) by (rule holders_inc)
  have w: "holders W (ths[i := th']) = holders W ths" using assms(2) holders_same assms(6,7) by blast
  from assms(1,3) have "holders W ths = 0" by (simp add: lock_agrees_def can_rlock_def)
  with assms(1) r w show ?thesis by (simp add: lock_agrees_def rlock_def)
qed

lemma lock_agrees_runlock:
  assumes "lock_agrees R W l ths" "i < length ths"
    and "R (tpc (ths ! i))" "\<not> R (tpc th')" "\<not> W (tpc (ths ! i))" "\<not> W (tpc th')"
  shows "lock_agrees R W (runlock l) (ths[i := th'])"
proof -
  have r: "Suc (holders R (ths[i := th'])) = holders R ths" using assms(2,3,4) by (rule holders_dec)
  have w: "holders W (ths[i := th']) = holders W ths" using assms(2) holders_same assms(5,6) by blast
  from assms(1) r have "holders W ths = 0" by (simp add: lock_agrees_def)
  with assms(1) r w show ?thesis by (simp add: lock_agrees_def runlock_def)
qed

lemma lock_agrees_wlock:
  assumes "lock_agrees R W l ths" "i < length ths" "can_lock l"
    and "\<not> R (tpc (ths ! i))" "\<not> R (tpc th')" "\<not> W (tpc (ths ! i))" "W (tpc th')"
  shows "lock_agrees R W (wlock l) (ths[i := th'])"
proof -
  have r: "holders R (ths[i := th']) = holders R ths" using assms(2) holders_same assms(4,5) by blast
  have w: "holders W (ths[i := th']) = Suc (holders W ths)" using assms(2,6,7) by (rule holders_inc)
  from assms(1,3) have "holders W ths = 0" "holders R ths = 0" "readers l = 0"
    by (simp_all add: lock_agrees_def can_lock_def)
  with r w show ?thesis by (simp add: lock_agrees_def wlock_def)
qed

lemma lock_agrees_wunlock:
  assumes "lock_agrees R W l ths" "i < length ths"
    and "\<not> R (tpc (ths ! i))" "\<not> R (tpc th')" "W (tpc (ths ! i))" "\<not> W (tpc th')"
  shows "lock_agrees R W (wunlock l) (ths[i := th'])"
proof -
  have r: "holders R (ths[i := th']) = holders R ths" using assms(2) holders_same assms(3,4) by blast
  have w: "Suc (holders W (ths[i := th'])) = holders W ths" using assms(2,5,6) by (rule holders_dec)
  from assms(1) w have "holders W ths = 1" "holders R ths = 0" by (auto simp: lock_agrees_def)
  with assms(1) r w show ?thesis by (simp add: lock_agrees_def wunlock_def)
qed

lemmas lock_transitions = lock_agrees_rlock lock_agrees_runlock lock_agrees_wlock lock_agrees_wunlock

lemma tstep_reg_lock:
  assumes "lock_agrees reg_reader reg_writer (reg_lock s) ths" "i < length ths"
    and "tstep af env (ths ! i) s = Some (th', s')"
  shows "lock_agrees reg_reader reg_writer (reg_lock s') (ths[i := th'])"
  using assms
  apply (cases "tpc (ths ! i)")
                 apply (auto simp: tstep.simps return_ptr_def panic_def set_obj_lock_def set_heap_def alloc_def
      split: option.splits list.splits tcall.splits if_splits tdesc.splits
      intro: lock_agrees_neutral)
  by (rule lock_transitions; simp)+

lemma tstep_obj_lock:
  assumes "lock_agrees (obj_reader p) (obj_writer p) (obj_lock s p) ths" "i < length ths"
    and "tstep af env (ths ! i) s = Some (th', s')"
  shows "lock_agrees (obj_reader p) (obj_writer p) (obj_lock s' p) (ths[i := th'])"
  using assms
  apply (cases "tpc (ths ! i)")
                 apply (auto simp: tstep.simps return_ptr_def panic_def set_obj_lock_def set_heap_def alloc_def
      split: option.splits list.splits tcall.splits if_splits tdesc.splits
      intro: lock_agrees_neutral)
  by (rule lock_agrees_neutral lock_transitions; simp)+

section \<open>The object invariant\<close>

lemma obj_of_type_ext: "obj_of_type r p t \<Longrightarrow> heap_ext r r' \<Longrightarrow> obj_of_type r' p t"
  by (auto simp: obj_of_type_def heap_ext_def)

lemma allocated_ext: "heap r p = Some ti \<Longrightarrow> heap_ext r r' \<Longrightarrow> \<exists>ti'. heap r' p = Some ti'"
  by (auto simp: heap_ext_def)

lemma obj_of_type_allocated: "obj_of_type r p t \<Longrightarrow> \<exists>ti. heap r p = Some ti"
  by (auto simp: obj_of_type_def)

lemma pc_ok_ext: "pc_ok env r pc \<Longrightarrow> heap_ext r r' \<Longrightarrow> pc_ok env r' pc"
  by (cases pc) (auto simp: obj_of_type_ext dest: allocated_ext split: option.splits)

lemma ret_ok_ext: "ret_ok r x \<Longrightarrow> heap_ext r r' \<Longrightarrow> ret_ok r' x"
  by (cases x) (auto simp: obj_of_type_ext dest: allocated_ext)

lemma thread_ok_ext: "thread_ok env r th \<Longrightarrow> heap_ext r r' \<Longrightarrow> thread_ok env r' th"
  unfolding thread_ok_def
  by (auto simp: pc_ok_ext list_all_iff ret_ok_ext dest: allocated_ext split: option.splits)

lemma tstep_heap_ext:
  assumes "reg_wf af env (creg s)" and "tstep af env th s = Some (th', s')"
  shows "heap_ext (creg s) (creg s')"
  using assms(2) reg_wf_fresh(1)[OF assms(1)]
  by (cases "tpc th")
     (auto simp: tstep.simps heap_ext_def return_ptr_def panic_def set_obj_lock_def set_heap_def alloc_def
        publish_def split: option.splits list.splits tcall.splits if_splits tdesc.splits)

lemma tstep_reg_wf:
  assumes "reg_wf af env (creg s)" and "thread_ok env (creg s) th"
    and "tstep af env th s = Some (th', s')"
  shows "reg_wf af env (creg s')"
proof (cases "tpc th")
  case (GCompute t)
  with assms(2) have "deref env t = Some t" by (simp add: thread_ok_def)
  then have "obj_wf af env (new_type_info af env t)" by (rule new_type_info_wf)
  from alloc_wf[OF assms(1) this] GCompute assms(3) show ?thesis
    by (auto simp: tstep.simps split: prod.splits)
next
  case (GWrite t p)
  with assms(2) obtain ti where "heap (creg s) p = Some ti" "ti_type ti = t"
    by (auto simp: thread_ok_def obj_of_type_def)
  from publish_wf[OF assms(1) this] GWrite assms(3) show ?thesis by (auto simp: tstep.simps)
next
  case (AWrite p e xs)
  with assms(1,3) show ?thesis
    by (auto simp: tstep.simps set_heap_def set_obj_lock_def panic_def
        intro!: heap_update_wf split: option.splits)
qed (use assms in \<open>auto simp: tstep.simps return_ptr_def panic_def set_obj_lock_def
        split: option.splits list.splits tcall.splits if_splits\<close>)

lemma tstep_thread_ok:
  assumes "reg_wf af env (creg s)" and "thread_ok env (creg s) th"
    and "tstep af env th s = Some (th', s')"
  shows "thread_ok env (creg s') th'"
proof -
  have ext: "heap_ext (creg s) (creg s')" using assms(1,3) by (rule tstep_heap_ext)
  have old: "thread_ok env (creg s') th" using assms(2) ext by (rule thread_ok_ext)
  have wf': "reg_wf af env (creg s')" using assms by (rule tstep_reg_wf)
  show ?thesis
  proof (cases "tpc th")
    case (GCompute t)
    with assms(3) old show ?thesis
      by (auto simp: tstep.simps thread_ok_def alloc_def obj_of_type_def)
  next
    case (GRead t)
    with assms(3) old wf' show ?thesis
      by (auto simp: tstep.simps thread_ok_def lookup_type_info_def obj_of_type_def reg_wf_def
          split: option.splits)
  qed (use assms(3) old in \<open>auto simp: tstep.simps thread_ok_def return_ptr_def panic_def
        deref_self_iff is_ptr_iff dest: obj_of_type_allocated
        split: option.splits list.splits tcall.splits if_splits tdesc.splits\<close>)
qed

section \<open>The extension invariant\<close>

lemma added_log_append [simp]: "added_log p (xs @ ys) = added_log p xs @ added_log p ys"
  by (induction p xs rule: added_log.induct) auto

lemma added_log_unalloc: "list_all (ret_ok r) rs \<Longrightarrow> heap r p = None \<Longrightarrow> added_log p rs = []"
  by (induction p rs rule: added_log.induct) auto

lemma added_by_unalloc: "thread_ok env r th \<Longrightarrow> heap r p = None \<Longrightarrow> added_by p th = {#}"
  by (cases "tpc th") (auto simp: thread_ok_def added_by_def added_log_unalloc)

lemma sum_added_unalloc:
  "list_all (thread_ok env r) ths \<Longrightarrow> heap r p = None \<Longrightarrow> sum_list (map (added_by p) ths) = {#}"
  by (induction ths) (auto simp: added_by_unalloc)

lemma lock_agrees_excl:
  assumes "lock_agrees R W l ths" "i < length ths" "j < length ths" "i \<noteq> j"
    and "W (tpc (ths ! i))" "W (tpc (ths ! j))"
  shows False
proof -
  have "2 \<le> holders W ths"
    unfolding holders_def using assms(2-6) by (rule two_le_length_filter [where P = "\<lambda>th. W (tpc th)"])
  with assms(1) show False by (simp add: lock_agrees_def)
qed

lemma added_sum_update:
  assumes "i < length ths" "added_by p th' = added_by p (ths ! i) + d"
  shows "sum_list (map (added_by p) (ths[i := th'])) = sum_list (map (added_by p) ths) + d"
  using sum_list_map_update[OF assms(1), of "added_by p" th'] assms(2) by (simp add: add_ac)

lemma aw_ok_same_heap: "heap r' = heap r \<Longrightarrow> aw_ok r' th = aw_ok r th"
  by (simp add: aw_ok_def split: pc.splits)

lemma aw_ok_fresh:
  "aw_ok r th \<Longrightarrow> thread_ok env r th \<Longrightarrow> heap r n = None \<Longrightarrow> heap r' = (heap r)(n \<mapsto> x) \<Longrightarrow>
   aw_ok r' th"
  by (cases "tpc th") (auto simp: aw_ok_def thread_ok_def)

lemma tstep_quiet:
  assumes "tstep af env th s = Some (th', s')"
    and "\<forall>t. tpc th \<noteq> GCompute t"
    and "\<forall>p e xs ti. tpc th = AWrite p e xs \<longrightarrow> heap (creg s) p \<noteq> Some ti"
  shows "heap (creg s') = heap (creg s) \<and> (\<forall>p. added_by p th' = added_by p th) \<and> aw_ok (creg s) th'"
  using assms
  by (cases "tpc th")
     (auto simp: tstep.simps added_by_def aw_ok_def return_ptr_def panic_def set_obj_lock_def publish_def
        split: option.splits list.splits tcall.splits if_splits tdesc.splits)

lemma tstep_ext_inv:
  assumes inv: "cinv af env c" and i: "i < length (threads c)"
    and st: "tstep af env (threads c ! i) (sh c) = Some (th', s')"
  shows "ext_inv \<lparr>sh = s', threads = (threads c)[i := th']\<rparr>"
proof -
  define ths where "ths = threads c"
  define r where "r = creg (sh c)"
  define th where "th = ths ! i"
  have i': "i < length ths" using i by (simp add: ths_def)
  have st': "tstep af env th (sh c) = Some (th', s')" using st by (simp add: th_def ths_def)
  have sums: "\<And>p ti. heap r p = Some ti \<Longrightarrow> mset (extensions ti) = sum_list (map (added_by p) ths)"
    and aws: "list_all (aw_ok r) ths"
    using inv by (simp_all add: cinv_def ext_inv_def r_def ths_def)
  have wf: "reg_wf af env r" and oks: "list_all (thread_ok env r) ths"
    using inv by (simp_all add: cinv_def objs_inv_def r_def ths_def)
  have locks: "\<And>p. lock_agrees (obj_reader p) (obj_writer p) (obj_lock (sh c) p) ths"
    using inv by (simp add: cinv_def locks_inv_def ths_def)
  have aw_j: "\<And>j. j < length ths \<Longrightarrow> aw_ok r (ths ! j)" using aws by (simp add: list_all_length)
  have ok_j: "\<And>j. j < length ths \<Longrightarrow> thread_ok env r (ths ! j)" using oks by (simp add: list_all_length)
  show ?thesis
  proof (cases "\<exists>t. tpc th = GCompute t")
    case True
    then obtain t where pc: "tpc th = GCompute t" by blast
    define n where "n = next_ptr r"
    have fresh: "heap r n = None" using reg_wf_fresh(1)[OF wf] by (simp add: n_def)
    from st' pc have th': "th' = th\<lparr>tpc := GLock t n\<rparr>"
      and hp: "heap (creg s') = (heap r)(n \<mapsto> new_type_info af env t)"
      by (auto simp: tstep.simps alloc_def r_def n_def)
    have add: "\<And>p. added_by p th' = added_by p th + {#}" using pc th' by (simp add: added_by_def)
    have zero: "sum_list (map (added_by n) ths) = {#}"
      using oks fresh by (rule sum_added_unalloc)
    show ?thesis
      unfolding ext_inv_def
    proof (intro conjI allI impI)
      fix p ti assume "heap (creg (sh \<lparr>sh = s', threads = (threads c)[i := th']\<rparr>)) p = Some ti"
      then have "heap (creg s') p = Some ti" by simp
      then show "mset (extensions ti) = sum_list (map (added_by p) (threads \<lparr>sh = s', threads = (threads c)[i := th']\<rparr>))"
        using added_sum_update[OF i' add[unfolded th_def]] sums zero hp by (auto simp: ths_def th_def split: if_splits)
    next
      have "\<And>j. j < length ths \<Longrightarrow> aw_ok (creg s') (ths ! j)"
        by (rule aw_ok_fresh[OF aw_j ok_j fresh hp])
      moreover have "aw_ok (creg s') th'" using th' by (simp add: aw_ok_def)
      ultimately show "list_all (aw_ok (creg (sh \<lparr>sh = s', threads = (threads c)[i := th']\<rparr>)))
          (threads \<lparr>sh = s', threads = (threads c)[i := th']\<rparr>)"
        by (auto simp: ths_def intro: list_all_updateI)
    qed
  next
    case notc: False
    show ?thesis
    proof (cases "\<exists>p e xs ti. tpc th = AWrite p e xs \<and> heap r p = Some ti")
      case True
      then obtain p0 e xs ti0 where pc: "tpc th = AWrite p0 e xs" and h0: "heap r p0 = Some ti0" by blast
      have xs: "extensions ti0 = xs" using aw_j[OF i'] pc h0 by (simp add: aw_ok_def th_def)
      from st' pc h0 have th': "th' = th\<lparr>tpc := AUnlock p0 e\<rparr>"
        and hp: "heap (creg s') = (heap r)(p0 \<mapsto> ti0\<lparr>extensions := xs @ [e]\<rparr>)"
        by (auto simp: tstep.simps set_heap_def r_def)
      have add: "\<And>p. added_by p th' = added_by p th + (if p = p0 then {#e#} else {#})"
        using pc th' by (simp add: added_by_def)
      have excl: "\<And>j q f ys. j < length ths \<Longrightarrow> j \<noteq> i \<Longrightarrow> tpc (ths ! j) = AWrite q f ys \<Longrightarrow> q \<noteq> p0"
        using lock_agrees_excl[OF locks i'] pc by (fastforce simp: th_def)
      show ?thesis
        unfolding ext_inv_def
      proof (intro conjI allI impI)
        fix p ti assume "heap (creg (sh \<lparr>sh = s', threads = (threads c)[i := th']\<rparr>)) p = Some ti"
        then have "heap (creg s') p = Some ti" by simp
        then show "mset (extensions ti) = sum_list (map (added_by p) (threads \<lparr>sh = s', threads = (threads c)[i := th']\<rparr>))"
          using added_sum_update[OF i' add[unfolded th_def]] sums h0 hp xs by (auto simp: ths_def th_def split: if_splits)
      next
        have "\<And>j. j < length ths \<Longrightarrow> j \<noteq> i \<Longrightarrow> aw_ok (creg s') (ths ! j)"
          using aw_j hp excl by (fastforce simp: aw_ok_def split: pc.splits)
        moreover have "aw_ok (creg s') th'" using th' by (simp add: aw_ok_def)
        ultimately show "list_all (aw_ok (creg (sh \<lparr>sh = s', threads = (threads c)[i := th']\<rparr>)))
            (threads \<lparr>sh = s', threads = (threads c)[i := th']\<rparr>)"
          by (auto simp: ths_def intro: list_all_updateI)
      qed
    next
      case False
      with notc have q: "heap (creg s') = heap r" "\<And>p. added_by p th' = added_by p th + {#}" "aw_ok r th'"
        using tstep_quiet[OF st'] by (auto simp: r_def)
      show ?thesis
        unfolding ext_inv_def
      proof (intro conjI allI impI)
        fix p ti assume "heap (creg (sh \<lparr>sh = s', threads = (threads c)[i := th']\<rparr>)) p = Some ti"
        then show "mset (extensions ti) = sum_list (map (added_by p) (threads \<lparr>sh = s', threads = (threads c)[i := th']\<rparr>))"
          using added_sum_update[OF i' q(2)[unfolded th_def]] sums q(1) by (simp add: ths_def)
      next
        show "list_all (aw_ok (creg (sh \<lparr>sh = s', threads = (threads c)[i := th']\<rparr>)))
            (threads \<lparr>sh = s', threads = (threads c)[i := th']\<rparr>)"
          using aw_j q(3) aw_ok_same_heap[OF q(1)] by (auto simp: ths_def intro: list_all_updateI)
      qed
    qed
  qed
qed

section \<open>Preservation and reachability\<close>

lemma tstep_locks_inv:
  assumes "locks_inv c" "i < length (threads c)" "tstep af env (threads c ! i) (sh c) = Some (th', s')"
  shows "locks_inv \<lparr>sh = s', threads = (threads c)[i := th']\<rparr>"
  using assms tstep_reg_lock tstep_obj_lock unfolding locks_inv_def by simp blast

lemma tstep_objs_inv:
  assumes "objs_inv af env c" "i < length (threads c)" "tstep af env (threads c ! i) (sh c) = Some (th', s')"
  shows "objs_inv af env \<lparr>sh = s', threads = (threads c)[i := th']\<rparr>"
proof -
  have wf: "reg_wf af env (creg (sh c))" and oks: "list_all (thread_ok env (creg (sh c))) (threads c)"
    using assms(1) by (simp_all add: objs_inv_def)
  then have ok_i: "thread_ok env (creg (sh c)) (threads c ! i)" using assms(2) by (simp add: list_all_length)
  have ext: "heap_ext (creg (sh c)) (creg s')" using wf assms(3) by (rule tstep_heap_ext)
  have "reg_wf af env (creg s')" using wf ok_i assms(3) by (rule tstep_reg_wf)
  moreover have "thread_ok env (creg s') th'" using wf ok_i assms(3) by (rule tstep_thread_ok)
  moreover have "\<And>j. j < length (threads c) \<Longrightarrow> thread_ok env (creg s') (threads c ! j)"
    using oks ext by (auto simp: list_all_length intro: thread_ok_ext)
  ultimately show ?thesis by (simp add: objs_inv_def list_all_updateI)
qed

lemma thread_step_SomeE:
  fixes c :: "('e, 's) cstate"
  assumes "thread_step af env i c = Some c'"
  obtains th' s' where "i < length (threads c)" "tstep af env (threads c ! i) (sh c) = Some (th', s')"
    "c' = \<lparr>sh = s', threads = (threads c)[i := th']\<rparr>"
  using assms by (auto simp: thread_step_def split: if_splits)

inductive_cases cstepE: "cstep af env c c'"

lemma cstep_cinv:
  assumes "cstep af env c c'" "cinv af env c"
  shows "cinv af env c'"
proof -
  from assms(1) obtain i where "thread_step af env i c = Some c'" by (rule cstepE)
  then obtain th' s' where "i < length (threads c)" "tstep af env (threads c ! i) (sh c) = Some (th', s')"
    "c' = \<lparr>sh = s', threads = (threads c)[i := th']\<rparr>"
    by (rule thread_step_SomeE)
  with assms(2) tstep_ext_inv[OF assms(2)] show ?thesis
    by (simp add: cinv_def tstep_locks_inv tstep_objs_inv)
qed

lemma init_cinv: "cinv af env (init_state progs)"
  using reg_wf_empty[unfolded empty_registry_def]
  by (auto simp: cinv_def locks_inv_def lock_agrees_def holders_def objs_inv_def ext_inv_def init_state_def
      init_thread_def rw_free_def reg_wf_empty empty_registry_def thread_ok_def added_by_def aw_ok_def
      list_all_iff filter_empty_conv)

lemma reachable_cinv: "(cstep af env)\<^sup>*\<^sup>* (init_state progs) c \<Longrightarrow> cinv af env c"
  by (induction rule: rtranclp_induct) (auto intro: init_cinv cstep_cinv)

lemma run_sched_reach: "run_sched af env sched c = Some c' \<Longrightarrow> (cstep af env)\<^sup>*\<^sup>* c c'"
proof (induction af env sched c rule: run_sched.induct)
  case (2 af env i sched c)
  then show ?case by (auto intro: converse_rtranclp_into_rtranclp cstep.intros split: option.splits)
qed simp

lemma holders_pos: "0 < holders P ths \<Longrightarrow> \<exists>j < length ths. P (tpc (ths ! j))"
  unfolding holders_def by (metis length_greater_0_conv filter_empty_conv in_set_conv_nth)

lemma holder_steps:
  "reg_reader (tpc th) \<or> reg_writer (tpc th) \<or> obj_reader p (tpc th) \<or> obj_writer p (tpc th) \<Longrightarrow>
   tstep af env th s \<noteq> None"
  by (cases "tpc th" rule: pc.exhaust) (auto simp: tstep.simps split: option.splits)

lemma holders_posI: "j < length ths \<Longrightarrow> P (tpc (ths ! j)) \<Longrightarrow> 0 < holders P ths"
  unfolding holders_def by (auto simp: filter_empty_conv dest: nth_mem)

lemma lock_agrees_writer_excl:
  assumes "lock_agrees R W l ths" "i < length ths" "j < length ths" "i \<noteq> j" "W (tpc (ths ! i))"
  shows "\<not> W (tpc (ths ! j)) \<and> \<not> R (tpc (ths ! j))"
proof
  show "\<not> W (tpc (ths ! j))" using lock_agrees_excl[OF assms(1-4,5)] by blast
  show "\<not> R (tpc (ths ! j))"
    using assms(1) holders_posI[where P = W, OF assms(2,5)] holders_posI[where P = R, OF assms(3)]
    by (auto simp: lock_agrees_def)
qed

lemma ex_env_0_not_ptr: "\<not> is_ptr ex_env 0"
  by (simp add: is_ptr_def kind_def ex_env_def)

lemma tstep_blocked:
  "tstep af env th s = None \<Longrightarrow> \<not> finished th \<Longrightarrow>
   \<not> can_lock (reg_lock s) \<or> (\<exists>p. \<not> can_lock (obj_lock s p))"
  by (cases "tpc th")
     (auto simp: tstep.simps finished_def can_lock_def can_rlock_def alloc_def
        split: option.splits list.splits tcall.splits if_splits)

lemma busy_holder:
  assumes "lock_agrees R W l ths" "\<not> can_lock l"
  shows "\<exists>j < length ths. R (tpc (ths ! j)) \<or> W (tpc (ths ! j))"
proof -
  from assms have "0 < holders W ths \<or> 0 < holders R ths" by (auto simp: lock_agrees_def can_lock_def)
  then show ?thesis using holders_pos by blast
qed

lemma tstep_enabled:
  assumes "j < length (threads c)" "tstep af env (threads c ! j) (sh c) \<noteq> None"
  shows "\<exists>c'. cstep af env c c'"
proof -
  obtain th' s' where "tstep af env (threads c ! j) (sh c) = Some (th', s')" using assms(2) by auto
  then have "thread_step af env j c = Some \<lparr>sh = s', threads = (threads c)[j := th']\<rparr>"
    using assms(1) by (simp add: thread_step_def)
  then show ?thesis by (blast intro: cstep.intros)
qed

section \<open>Properties\<close>

text \<open>
  C11 (safety).  Mutual exclusion: in every reachable state, while one goroutine
  is inside the write section of \<open>typeInfosMutex\<close> (between \<open>Lock\<close> and
  \<open>Unlock\<close> in \<open>GetTypeInfo\<close>), no other goroutine is inside a read or a write
  section of it; and while one is inside the write section of an object's
  \<open>mutex\<close> (\<open>AddExtension\<close>), no other is inside a read (\<open>Extensions\<close>) or
  write section of the same mutex.  So the map read never overlaps the map
  write, and the read of \<open>typeInfo.extensions\<close> never overlaps its \<open>append\<close>.
\<close>
theorem concurrent_mutual_exclusion:
  assumes "(cstep af env)\<^sup>*\<^sup>* (init_state progs) c"
    and "i < length (threads c)" "j < length (threads c)" "i \<noteq> j"
  shows "(reg_writer (tpc (threads c ! i)) \<longrightarrow>
            \<not> reg_writer (tpc (threads c ! j)) \<and> \<not> reg_reader (tpc (threads c ! j))) \<and>
         (obj_writer p (tpc (threads c ! i)) \<longrightarrow>
            \<not> obj_writer p (tpc (threads c ! j)) \<and> \<not> obj_reader p (tpc (threads c ! j)))"
proof -
  have "locks_inv c" using reachable_cinv[OF assms(1)] by (simp add: cinv_def)
  then have "lock_agrees reg_reader reg_writer (reg_lock (sh c)) (threads c)"
    "lock_agrees (obj_reader p) (obj_writer p) (obj_lock (sh c) p) (threads c)"
    by (simp_all add: locks_inv_def)
  then show ?thesis using lock_agrees_writer_excl[OF _ assms(2-4)] by blast
qed

text \<open>
  C12 (safety, violated).  The check-then-act race of \<open>GetTypeInfo\<close>: for
  every enumerator, every environment and every type \<open>t\<close> with no pointer
  to strip, there is a schedule in which two goroutines both miss the
  cache for \<open>t\<close> under the read lock, both build an object, and both publish:
  the first caller gets object 0 and adds an extension to it, the second
  gets object 1, which stays in the table.  A third goroutine started after
  the other two have returned gets object 1, whose \<open>Extensions()\<close> is empty:
  the completed \<open>AddExtension\<close> is lost for every later caller.
\<close>
theorem concurrent_race_loses_extension:
  assumes "deref env t = Some t"
  shows "\<exists>sched1 sched2 c1 c2.
    run_sched af env sched1 (init_state [[TGetTypeInfo t, TAddExtension e], [TGetTypeInfo t], [TGetTypeInfo t, TExtensions]]) = Some c1 \<and>
    finished (threads c1 ! 0) \<and> finished (threads c1 ! 1) \<and>
    tlog (threads c1 ! 0) = [RetPtr t 0, RetAdded 0 e] \<and> tlog (threads c1 ! 1) = [RetPtr t 1] \<and>
    threads c1 ! 2 = init_thread [TGetTypeInfo t, TExtensions] \<and>
    set sched2 \<subseteq> {2} \<and> run_sched af env sched2 c1 = Some c2 \<and>
    tlog (threads c2 ! 2) = [RetPtr t 1, RetExts 1 []]"
proof -
  have np: "\<not> is_ptr env t" using assms by (simp add: deref_self_iff)
  show ?thesis
    apply (rule exI[of _ "[0,0,0,0,0, 1,1,1,1,1, 0,0,0,0, 1,1,1,1, 0,0,0,0,0]"])
    apply (rule exI[of _ "[2,2,2,2,2,2,2,2,2]"])
    using np by (simp add: step_simps finished_def)
qed

text \<open>
  C13 (invariant).  No extension is lost or invented on an object: in every
  reachable state, the extensions of each allocated object are, as a
  multiset, exactly those whose \<open>AddExtension\<close> call on that object has
  returned, plus those written by a call that has not yet unlocked.
\<close>
theorem concurrent_extensions_accounted:
  assumes "(cstep af env)\<^sup>*\<^sup>* (init_state progs) c" and "heap (creg (sh c)) p = Some ti"
  shows "mset (extensions ti) =
           (\<Sum>th \<leftarrow> threads c. mset (added_log p (tlog th)) + pending_add p (tpc th))"
  using reachable_cinv[OF assms(1)] assms(2) by (simp add: cinv_def ext_inv_def added_by_def [abs_def])

text \<open>
  C14 (invariant).  Every pointer \<open>GetTypeInfo\<close> has returned to a goroutine
  designates an allocated object of the returned type, a type with no
  pointer left to strip, whose fields are the sorted enumeration of that
  type, however the calls interleave.
\<close>
theorem concurrent_returns_wf:
  assumes "(cstep af env)\<^sup>*\<^sup>* (init_state progs) c"
    and "th \<in> set (threads c)" and "RetPtr t p \<in> set (tlog th)"
  shows "\<exists>ti. heap (creg (sh c)) p = Some ti \<and> ti_type ti = t \<and> deref env t = Some t \<and>
              ti_fields ti = computed_fields af env t"
proof -
  have inv: "objs_inv af env c" using reachable_cinv[OF assms(1)] by (simp add: cinv_def)
  then have "thread_ok env (creg (sh c)) th" using assms(2) by (simp add: objs_inv_def list_all_iff)
  then have "\<forall>x \<in> set (tlog th). ret_ok (creg (sh c)) x" by (simp add: thread_ok_def list_all_iff)
  from bspec[OF this assms(3)] have "ret_ok (creg (sh c)) (RetPtr t p)" .
  then obtain ti where ti: "heap (creg (sh c)) p = Some ti" "ti_type ti = t" by (auto simp: obj_of_type_def)
  moreover have "obj_wf af env ti" using inv ti(1) by (auto simp: objs_inv_def reg_wf_def)
  ultimately show ?thesis by (auto simp: obj_wf_def)
qed

text \<open>
  C15 (liveness).  Deadlock freedom: in every reachable state, if some goroutine
  has neither finished its calls nor panicked, some goroutine can take a
  step.  A goroutine blocked on a lock is blocked by a holder of that lock,
  and a holder never waits.
\<close>
theorem concurrent_deadlock_free:
  assumes "(cstep af env)\<^sup>*\<^sup>* (init_state progs) c"
    and "i < length (threads c)" and "\<not> finished (threads c ! i)"
  shows "\<exists>c'. cstep af env c c'"
proof (cases "tstep af env (threads c ! i) (sh c) = None")
  case False
  then show ?thesis using assms(2) by (rule tstep_enabled[rotated])
next
  case True
  have locks: "locks_inv c" using reachable_cinv[OF assms(1)] by (simp add: cinv_def)
  from tstep_blocked[OF True assms(3)] obtain j where j: "j < length (threads c)"
    and h: "reg_reader (tpc (threads c ! j)) \<or> reg_writer (tpc (threads c ! j)) \<or>
            (\<exists>p. obj_reader p (tpc (threads c ! j)) \<or> obj_writer p (tpc (threads c ! j)))"
    using busy_holder locks unfolding locks_inv_def by metis
  from h have "tstep af env (threads c ! j) (sh c) \<noteq> None" using holder_steps by metis
  with j show ?thesis by (rule tstep_enabled)
qed

text \<open>
  C18 (type).  The cache is well typed under every interleaving: in every
  reachable state each key of \<open>typeInfos\<close> is a type that is not a pointer
  (\<open>GetTypeInfo\<close> strips pointers before it looks up or publishes), and
  the \<open>*TypeInfo\<close> stored under it is an allocated object whose \<open>Type\<close> is that key.
\<close>

theorem concurrent_table_well_typed:
  assumes "(cstep af env)\<^sup>*\<^sup>* (init_state progs) c" and "type_infos (creg (sh c)) t = Some p"
  shows "kind env t \<noteq> KPtr \<and> (\<exists>ti. heap (creg (sh c)) p = Some ti \<and> ti_type ti = t)"
proof -
  have wf: "reg_wf af env (creg (sh c))" using reachable_cinv[OF assms(1)] by (simp add: cinv_def objs_inv_def)
  then obtain ti where ti: "heap (creg (sh c)) p = Some ti" "ti_type ti = t"
    using assms(2) by (auto simp: reg_wf_def)
  with wf have "deref env t = Some t" by (auto simp: reg_wf_def obj_wf_def)
  then have "\<not> is_ptr env t" by (simp add: deref_self_iff)
  with ti show ?thesis by (auto simp: is_ptr_def)
qed

theorem concurrent_mutual_exclusion_witness:
  "\<exists>c. run_sched ex_fields ex_env [0,0,0,0,0,0,0, 1,1]
          (init_state [[TGetTypeInfo 0], [TGetTypeInfo 0]] :: (nat, nat) cstate) = Some c \<and>
       reg_writer (tpc (threads c ! 0)) \<and>
       \<not> reg_writer (tpc (threads c ! 1)) \<and> \<not> reg_reader (tpc (threads c ! 1))"
proof -
  have "\<exists>c. run_sched ex_fields ex_env [0,0,0,0,0,0,0, 1,1]
          (init_state [[TGetTypeInfo 0], [TGetTypeInfo 0]] :: (nat, nat) cstate) = Some c \<and>
       length (threads c) = 2 \<and> reg_writer (tpc (threads c ! 0))"
    using ex_env_0_not_ptr by (simp add: step_simps)
  then obtain c where run: "run_sched ex_fields ex_env [0,0,0,0,0,0,0, 1,1]
          (init_state [[TGetTypeInfo 0], [TGetTypeInfo 0]] :: (nat, nat) cstate) = Some c"
    and len: "length (threads c) = 2" and w: "reg_writer (tpc (threads c ! 0))" by blast
  from run have "(cstep ex_fields ex_env)\<^sup>*\<^sup>* (init_state [[TGetTypeInfo 0], [TGetTypeInfo 0]]) c"
    by (rule run_sched_reach)
  from concurrent_mutual_exclusion[OF this, of 0 1] len w run show ?thesis by auto
qed

theorem concurrent_race_loses_extension_witness:
  "\<exists>sched1 sched2 (c1 :: (nat, nat) cstate) c2.
    run_sched ex_fields ex_env sched1 (init_state [[TGetTypeInfo 0, TAddExtension 7], [TGetTypeInfo 0],
      [TGetTypeInfo 0, TExtensions]]) = Some c1 \<and>
    finished (threads c1 ! 0) \<and> finished (threads c1 ! 1) \<and>
    tlog (threads c1 ! 0) = [RetPtr 0 0, RetAdded 0 7] \<and> tlog (threads c1 ! 1) = [RetPtr 0 1] \<and>
    threads c1 ! 2 = init_thread [TGetTypeInfo 0, TExtensions] \<and>
    set sched2 \<subseteq> {2} \<and> run_sched ex_fields ex_env sched2 c1 = Some c2 \<and>
    tlog (threads c2 ! 2) = [RetPtr 0 1, RetExts 1 []]"
  using concurrent_race_loses_extension[of ex_env 0 ex_fields 7] deref_not_ptr[OF ex_env_0_not_ptr]
  by simp

theorem concurrent_extensions_accounted_witness:
  "\<exists>c ti. run_sched ex_fields ex_env [0,0,0,0,0, 1,1,1,1,1, 0,0,0,0, 1,1,1,1, 0,0,0,0,0]
          (init_state [[TGetTypeInfo 0, TAddExtension 7], [TGetTypeInfo 0]] :: (nat, nat) cstate) = Some c \<and>
     heap (creg (sh c)) 0 = Some ti \<and> extensions ti = [7] \<and>
     mset (extensions ti) = (\<Sum>th \<leftarrow> threads c. mset (added_log 0 (tlog th)) + pending_add 0 (tpc th))"
proof -
  have "\<exists>c ti. run_sched ex_fields ex_env [0,0,0,0,0, 1,1,1,1,1, 0,0,0,0, 1,1,1,1, 0,0,0,0,0]
          (init_state [[TGetTypeInfo 0, TAddExtension 7], [TGetTypeInfo 0]] :: (nat, nat) cstate) = Some c \<and>
     heap (creg (sh c)) 0 = Some ti \<and> extensions ti = [7]"
    using ex_env_0_not_ptr by (simp add: step_simps)
  then obtain c ti where run: "run_sched ex_fields ex_env [0,0,0,0,0, 1,1,1,1,1, 0,0,0,0, 1,1,1,1, 0,0,0,0,0]
          (init_state [[TGetTypeInfo 0, TAddExtension 7], [TGetTypeInfo 0]] :: (nat, nat) cstate) = Some c"
    and h: "heap (creg (sh c)) 0 = Some ti" and x: "extensions ti = [7]" by blast
  from run have "(cstep ex_fields ex_env)\<^sup>*\<^sup>* (init_state [[TGetTypeInfo 0, TAddExtension 7], [TGetTypeInfo 0]]) c"
    by (rule run_sched_reach)
  from concurrent_extensions_accounted[OF this h] run h x show ?thesis by blast
qed

theorem concurrent_returns_wf_witness:
  "\<exists>c ti. run_sched ex_fields ex_env [0,0,0,0,0, 1,1,1,1,1, 0,0,0,0, 1,1,1,1]
          (init_state [[TGetTypeInfo 0], [TGetTypeInfo 0]] :: (nat, nat) cstate) = Some c \<and>
     RetPtr 0 1 \<in> set (tlog (threads c ! 1)) \<and>
     heap (creg (sh c)) 1 = Some ti \<and> ti_type ti = 0 \<and> deref ex_env 0 = Some 0 \<and>
     ti_fields ti = computed_fields ex_fields ex_env 0"
proof -
  have "\<exists>c. run_sched ex_fields ex_env [0,0,0,0,0, 1,1,1,1,1, 0,0,0,0, 1,1,1,1]
          (init_state [[TGetTypeInfo 0], [TGetTypeInfo 0]] :: (nat, nat) cstate) = Some c \<and>
     length (threads c) = 2 \<and> RetPtr 0 1 \<in> set (tlog (threads c ! 1))"
    using ex_env_0_not_ptr by (simp add: step_simps)
  then obtain c where run: "run_sched ex_fields ex_env [0,0,0,0,0, 1,1,1,1,1, 0,0,0,0, 1,1,1,1]
          (init_state [[TGetTypeInfo 0], [TGetTypeInfo 0]] :: (nat, nat) cstate) = Some c"
    and len: "length (threads c) = 2" and r: "RetPtr 0 1 \<in> set (tlog (threads c ! 1))" by blast
  from run have "(cstep ex_fields ex_env)\<^sup>*\<^sup>* (init_state [[TGetTypeInfo 0], [TGetTypeInfo 0]]) c"
    by (rule run_sched_reach)
  from concurrent_returns_wf[OF this _ r] len run r show ?thesis by auto
qed

theorem concurrent_deadlock_free_witness:
  "\<exists>c. run_sched ex_fields ex_env [0,0,0,0,0,0,0, 1,1]
          (init_state [[TGetTypeInfo 0], [TGetTypeInfo 0]] :: (nat, nat) cstate) = Some c \<and>
       \<not> finished (threads c ! 1) \<and> thread_step ex_fields ex_env 1 c = None \<and>
       (\<exists>c'. cstep ex_fields ex_env c c')"
proof -
  have "\<exists>c. run_sched ex_fields ex_env [0,0,0,0,0,0,0, 1,1]
          (init_state [[TGetTypeInfo 0], [TGetTypeInfo 0]] :: (nat, nat) cstate) = Some c \<and>
       length (threads c) = 2 \<and> \<not> finished (threads c ! 1) \<and> thread_step ex_fields ex_env 1 c = None"
    using ex_env_0_not_ptr by (simp add: step_simps finished_def)
  then obtain c where run: "run_sched ex_fields ex_env [0,0,0,0,0,0,0, 1,1]
          (init_state [[TGetTypeInfo 0], [TGetTypeInfo 0]] :: (nat, nat) cstate) = Some c"
    and len: "length (threads c) = 2" and nf: "\<not> finished (threads c ! 1)"
    and blk: "thread_step ex_fields ex_env 1 c = None" by blast
  from run have "(cstep ex_fields ex_env)\<^sup>*\<^sup>* (init_state [[TGetTypeInfo 0], [TGetTypeInfo 0]]) c"
    by (rule run_sched_reach)
  from concurrent_deadlock_free[OF this _ nf] len run nf blk show ?thesis by auto
qed


theorem concurrent_table_well_typed_witness:
  "\<exists>c. run_sched ex_fields ex_env [0,0,0,0,0, 1,1,1,1,1, 0,0,0,0, 1,1,1,1]
          (init_state [[TGetTypeInfo 0], [TGetTypeInfo 0]] :: (nat, nat) cstate) = Some c \<and>
       type_infos (creg (sh c)) 0 = Some 1 \<and>
       kind ex_env 0 \<noteq> KPtr \<and> (\<exists>ti. heap (creg (sh c)) 1 = Some ti \<and> ti_type ti = 0)"
proof -
  have "\<exists>c. run_sched ex_fields ex_env [0,0,0,0,0, 1,1,1,1,1, 0,0,0,0, 1,1,1,1]
          (init_state [[TGetTypeInfo 0], [TGetTypeInfo 0]] :: (nat, nat) cstate) = Some c \<and>
       type_infos (creg (sh c)) 0 = Some 1"
    using ex_env_0_not_ptr by (simp add: step_simps)
  then obtain c where run: "run_sched ex_fields ex_env [0,0,0,0,0, 1,1,1,1,1, 0,0,0,0, 1,1,1,1]
          (init_state [[TGetTypeInfo 0], [TGetTypeInfo 0]] :: (nat, nat) cstate) = Some c"
    and tab: "type_infos (creg (sh c)) 0 = Some 1" by blast
  from run have "(cstep ex_fields ex_env)\<^sup>*\<^sup>* (init_state [[TGetTypeInfo 0], [TGetTypeInfo 0]]) c"
    by (rule run_sched_reach)
  from concurrent_table_well_typed[OF this tab] run tab show ?thesis by blast
qed

end
