(* ===== verification/Solo.thy ===== *)
theory Solo
  imports Concurrency
begin

text \<open>
  The two semantics of \<open>src/jsoninfo/type_info.go\<close> agree: a goroutine of
  theory \<open>Concurrency\<close> that runs one call without interruption, the locks
  being free, computes what the sequential \<open>exec_call\<close> of theory
  \<open>Registry\<close> computes, panics included.  And a goroutine in the
  pointer-stripping loop of a type whose chain of \<open>Elem\<close> never ends stays in
  the loop whatever the other goroutines do.
\<close>

section \<open>A goroutine running alone\<close>

fun tsteps :: "enumerator \<Rightarrow> tenv \<Rightarrow> nat \<Rightarrow> 'e thread \<Rightarrow> ('e, 's) shared \<Rightarrow> ('e thread \<times> ('e, 's) shared) option" where
  "tsteps af env 0 th s = Some (th, s)"
| "tsteps af env (Suc k) th s =
     (case tstep af env th s of None \<Rightarrow> None | Some (th', s') \<Rightarrow> tsteps af env k th' s')"

text \<open>The sequential call a goroutine's next call stands for, given its local \<open>ti\<close>.\<close>

fun to_call :: "ptr option \<Rightarrow> 'e tcall \<Rightarrow> ('v, 'e, 's) call option" where
  "to_call _ (TGetTypeInfo t) = Some (CallGetTypeInfo t)"
| "to_call (Some p) (TAddExtension e) = Some (CallAddExtension p e)"
| "to_call (Some p) TExtensions = Some (CallExtensions p)"
| "to_call None _ = None"

fun ret_matches :: "('e, 's) ret \<Rightarrow> 'e tret \<Rightarrow> bool" where
  "ret_matches (RPtr p) (RetPtr _ q) = (p = q)"
| "ret_matches RUnit (RetAdded _ _) = True"
| "ret_matches (RExts es) (RetExts _ es') = (es = es')"
| "ret_matches _ _ = False"

text \<open>
  The sequential meaning of a goroutine's program, call after call, through the
  operations of theory \<open>Registry\<close>: its local \<open>ti\<close> is the last result of
  \<open>GetTypeInfo\<close>, a panic stops it with the remaining calls untouched, and a
  \<open>GetTypeInfo\<close> that never returns makes the whole run \<open>None\<close>.
\<close>

function seq_goroutine ::
  "enumerator \<Rightarrow> tenv \<Rightarrow> 'e thread \<Rightarrow> ('e, 's) registry \<Rightarrow> ('e thread \<times> ('e, 's) registry) option" where
  "seq_goroutine af env th st =
     (case tprog th of
        [] \<Rightarrow> Some (th, st)
      | TGetTypeInfo t # cs \<Rightarrow>
          (case deref env t of
             None \<Rightarrow> None
           | Some u \<Rightarrow>
               (case get_type_info af env t st of
                  None \<Rightarrow> None
                | Some (p, st') \<Rightarrow>
                    seq_goroutine af env (th\<lparr>tprog := cs, ti_local := Some p, tlog := tlog th @ [RetPtr u p]\<rparr>) st'))
      | TAddExtension e # cs \<Rightarrow>
          (case ti_local th of
             None \<Rightarrow> Some (th\<lparr>tpc := Panicked NilDereference, tprog := cs\<rparr>, st)
           | Some p \<Rightarrow>
               (case add_extension p e st of
                  Inl err \<Rightarrow> Some (th\<lparr>tpc := Panicked err, tprog := cs\<rparr>, st)
                | Inr st' \<Rightarrow> seq_goroutine af env (th\<lparr>tprog := cs, tlog := tlog th @ [RetAdded p e]\<rparr>) st'))
      | TExtensions # cs \<Rightarrow>
          (case ti_local th of
             None \<Rightarrow> Some (th\<lparr>tpc := Panicked NilDereference, tprog := cs\<rparr>, st)
           | Some p \<Rightarrow>
               (case get_extensions p st of
                  Inl err \<Rightarrow> Some (th\<lparr>tpc := Panicked err, tprog := cs\<rparr>, st)
                | Inr es \<Rightarrow> seq_goroutine af env (th\<lparr>tprog := cs, tlog := tlog th @ [RetExts p es]\<rparr>) st)))"
  by pat_completeness auto

termination
  by (relation "measure (\<lambda>(af, env, th, st). length (tprog th))") auto

declare seq_goroutine.simps [simp del]

section \<open>Lemmas\<close>

lemma tsteps_add:
  "tsteps af env (m + n) th s = (case tsteps af env m th s of None \<Rightarrow> None | Some (th', s') \<Rightarrow> tsteps af env n th' s')"
  by (induction m arbitrary: th s) (auto split: option.splits)

lemma run_sched_solo:
  "i < length (threads c) \<Longrightarrow>
   run_sched af env (replicate k i) c =
     map_option (\<lambda>(th, s). \<lparr>sh = s, threads = (threads c)[i := th]\<rparr>) (tsteps af env k (threads c ! i) (sh c))"
proof (induction k arbitrary: c)
  case (Suc k)
  then show ?case
    by (auto simp: thread_step_def split: option.splits)
qed simp

lemma tsteps_gloop:
  fixes th :: "'e thread" and s :: "('e, 's) shared"
  assumes "deref env t = Some u"
  shows "\<exists>k. tsteps af env k (th\<lparr>tpc := GLoop t\<rparr>) s = Some (th\<lparr>tpc := GRLock u\<rparr>, s)"
proof -
  have "\<forall>(th :: 'e thread) (s :: ('e, 's) shared). \<exists>k. tsteps af env k (th\<lparr>tpc := GLoop t\<rparr>) s = Some (th\<lparr>tpc := GRLock u\<rparr>, s)"
  proof (rule deref.raw_induct [where P = "\<lambda>env t u. \<forall>(th :: 'e thread) (s :: ('e, 's) shared). \<exists>k. tsteps af env k (th\<lparr>tpc := GLoop t\<rparr>) s = Some (th\<lparr>tpc := GRLock u\<rparr>, s)",
         OF _ assms])
    fix f env t u
    assume IH: "\<And>env t u. f env t = Some u \<Longrightarrow>
        \<forall>(th :: 'e thread) (s :: ('e, 's) shared). \<exists>k. tsteps af env k (th\<lparr>tpc := GLoop t\<rparr>) s = Some (th\<lparr>tpc := GRLock u\<rparr>, s)"
      and eq: "(case env t of DPtr e \<Rightarrow> f env e | _ \<Rightarrow> Some t) = Some u"
    show "\<forall>(th :: 'e thread) (s :: ('e, 's) shared). \<exists>k. tsteps af env k (th\<lparr>tpc := GLoop t\<rparr>) s = Some (th\<lparr>tpc := GRLock u\<rparr>, s)"
    proof (intro allI)
      fix th :: "'e thread" and s :: "('e, 's) shared"
      show "\<exists>k. tsteps af env k (th\<lparr>tpc := GLoop t\<rparr>) s = Some (th\<lparr>tpc := GRLock u\<rparr>, s)"
      proof (cases "env t")
        case (DPtr e)
        with eq have "f env e = Some u" by simp
        then have "\<forall>(th :: 'e thread) (s :: ('e, 's) shared). \<exists>k. tsteps af env k (th\<lparr>tpc := GLoop e\<rparr>) s = Some (th\<lparr>tpc := GRLock u\<rparr>, s)"
          by (rule IH)
        then obtain k where "tsteps af env k (th\<lparr>tpc := GLoop e\<rparr>) s = Some (th\<lparr>tpc := GRLock u\<rparr>, s)"
          by blast
        with DPtr have "tsteps af env (Suc k) (th\<lparr>tpc := GLoop t\<rparr>) s = Some (th\<lparr>tpc := GRLock u\<rparr>, s)"
          by (simp add: tstep.simps is_ptr_iff elem_step_def)
        then show ?thesis ..
      qed (use eq in \<open>auto simp: tstep.simps is_ptr_iff intro!: exI[of _ 1]\<close>)
    qed
  qed
  then show ?thesis by blast
qed


lemma runlock_rlock [simp]: "runlock (rlock l) = l"
  by (simp add: runlock_def rlock_def)

lemma wunlock_wlock [simp]: "\<not> writer l \<Longrightarrow> wunlock (wlock l) = l"
  by (simp add: wunlock_def wlock_def)

lemma set_obj_lock_id [simp]: "f (obj_lock s p) = obj_lock s p \<Longrightarrow> set_obj_lock p f s = s"
  by (simp add: set_obj_lock_def)

lemma tsteps_get_type_info:
  assumes "get_type_info af env t (creg s) = Some (p, r')" and "can_lock (reg_lock s)"
  shows "\<exists>k u. deref env t = Some u \<and>
           tsteps af env k (th\<lparr>tpc := GLoop t\<rparr>) s = Some (return_ptr th u p, s\<lparr>creg := r'\<rparr>)"
proof -
  from assms(1) obtain u where u: "deref env t = Some u" by (auto simp: get_type_info_def split: option.splits)
  then obtain k1 where k1: "tsteps af env k1 (th\<lparr>tpc := GLoop t\<rparr>) s = Some (th\<lparr>tpc := GRLock u\<rparr>, s)"
    using tsteps_gloop by blast
  show ?thesis
  proof (cases "lookup_type_info (creg s) u")
    case (Some q)
    with assms(1) u have "q = p" "r' = creg s" by (simp_all add: get_type_info_def)
    with Some assms(2) have "tsteps af env 3 (th\<lparr>tpc := GRLock u\<rparr>) s = Some (return_ptr th u p, s\<lparr>creg := r'\<rparr>)"
      by (simp add: numeral_eq_Suc tstep.simps can_lock_def can_rlock_def return_ptr_def)
    with k1 u show ?thesis by (auto simp: tsteps_add [of _ _ k1 3] intro!: exI[of _ "k1 + 3"])
  next
    case None
    with assms(1) u have "r' = publish u p (snd (alloc (new_type_info af env u) (creg s)))"
      "p = next_ptr (creg s)"
      by (auto simp: get_type_info_def alloc_def)
    with None assms(2) have "tsteps af env 7 (th\<lparr>tpc := GRLock u\<rparr>) s = Some (return_ptr th u p, s\<lparr>creg := r'\<rparr>)"
      by (simp add: numeral_eq_Suc tstep.simps can_lock_def can_rlock_def return_ptr_def alloc_def
          runlock_def rlock_def wlock_def wunlock_def)
    with k1 u show ?thesis by (auto simp: tsteps_add [of _ _ k1 7] intro!: exI[of _ "k1 + 7"])
  qed
qed


lemma tsteps_add_extension:
  assumes "tpc th = Idle" "tprog th = TAddExtension e # cs" "ti_local th = Some p" "can_lock (obj_lock s p)"
  shows "add_extension p e (creg s) = Inl err \<Longrightarrow>
           tsteps af env 2 th s = Some (th\<lparr>tpc := Panicked err, tprog := cs\<rparr>, s)"
    and "add_extension p e (creg s) = Inr r' \<Longrightarrow>
           tsteps af env 5 th s = Some (th\<lparr>tpc := Idle, tprog := cs, tlog := tlog th @ [RetAdded p e]\<rparr>, s\<lparr>creg := r'\<rparr>)"
  using assms
  by (auto simp: numeral_eq_Suc tstep.simps add_extension_def append_extension_def panic_def can_lock_def
      set_obj_lock_def set_heap_def split: option.splits)

lemma tsteps_extensions:
  assumes "tpc th = Idle" "tprog th = TExtensions # cs" "ti_local th = Some p" "can_lock (obj_lock s p)"
  shows "get_extensions p (creg s) = Inl err \<Longrightarrow>
           tsteps af env 2 th s = Some (th\<lparr>tpc := Panicked err, tprog := cs\<rparr>, s)"
    and "get_extensions p (creg s) = Inr es \<Longrightarrow>
           tsteps af env 4 th s = Some (th\<lparr>tpc := Idle, tprog := cs, tlog := tlog th @ [RetExts p es]\<rparr>, s)"
  using assms
  by (auto simp: numeral_eq_Suc tstep.simps get_extensions_def panic_def can_lock_def can_rlock_def
      set_obj_lock_def split: option.splits)


lemma tsteps_run_sched:
  assumes "i < length (threads c)" "tsteps af env k (threads c ! i) (sh c) = Some (th', s')"
  shows "run_sched af env (replicate k i) c = Some \<lparr>sh = s', threads = (threads c)[i := th']\<rparr>"
  using assms by (simp add: run_sched_solo)

lemma cstep_threads:
  assumes "cstep af env c c'"
  obtains j th' where "j < length (threads c)" "threads c' = (threads c)[j := th']"
    "tstep af env (threads c ! j) (sh c) = Some (th', sh c')"
proof -
  from assms obtain j where "thread_step af env j c = Some c'" by (rule cstepE)
  then show ?thesis using that by (auto elim!: thread_step_SomeE)
qed

lemma tstep_gloop_None:
  assumes "tpc th = GLoop t" "deref env t = None" "tstep af env th s = Some (th', s')"
  shows "tpc th' = GLoop (elem_step env t) \<and> deref env (elem_step env t) = None"
proof -
  have "is_ptr env t" using assms(2) deref_not_ptr by fastforce
  with assms show ?thesis by (auto simp: tstep.simps deref_elem_step)
qed

lemma tstep_idle_get:
  "tpc th = Idle \<Longrightarrow> tprog th = TGetTypeInfo t # cs \<Longrightarrow>
   tstep af env th s = Some (th\<lparr>tprog := cs, tpc := GLoop t\<rparr>, s)"
  by (cases th) (simp add: tstep.simps)

lemma return_ptr_idle:
  "tpc th = Idle \<Longrightarrow> return_ptr (th\<lparr>tprog := cs\<rparr>) u p = th\<lparr>tprog := cs, ti_local := Some p, tlog := tlog th @ [RetPtr u p]\<rparr>"
  by (cases th) (simp add: return_ptr_def)

lemma thread_idle_upd:
  "tpc th = Idle \<Longrightarrow> th\<lparr>tpc := Idle, tprog := cs, tlog := xs\<rparr> = th\<lparr>tprog := cs, tlog := xs\<rparr>"
  by (cases th) simp

lemma tsteps_seq:
  "seq_goroutine af env th st = Some (th', r') \<Longrightarrow> tpc th = Idle \<Longrightarrow> creg s = st \<Longrightarrow>
   can_lock (reg_lock s) \<Longrightarrow> \<forall>q. can_lock (obj_lock s q) \<Longrightarrow>
   \<exists>k. tsteps af env k th s = Some (th', s\<lparr>creg := r'\<rparr>)"
proof (induction af env th st arbitrary: s rule: seq_goroutine.induct)
  case (1 af env th st)
  note seq = "1.prems"(1) and idle = "1.prems"(2) and cr = "1.prems"(3) and free = "1.prems"(4,5)
  show ?case
  proof (cases "tprog th")
    case Nil
    with seq have "th' = th" "r' = st" by (simp_all add: seq_goroutine.simps)
    with cr show ?thesis by (intro exI[of _ 0]) simp
  next
    case (Cons tc cs)
    show ?thesis
    proof (cases tc)
      case (TGetTypeInfo t)
      with seq Cons obtain u p st1 where u: "deref env t = Some u" and g: "get_type_info af env t st = Some (p, st1)"
        and rec: "seq_goroutine af env (th\<lparr>tprog := cs, ti_local := Some p, tlog := tlog th @ [RetPtr u p]\<rparr>) st1 = Some (th', r')"
        by (auto simp: seq_goroutine.simps split: option.splits)
      obtain k1 u' where u': "deref env t = Some u'"
        and k1: "tsteps af env k1 (th\<lparr>tprog := cs, tpc := GLoop t\<rparr>) s = Some (return_ptr (th\<lparr>tprog := cs\<rparr>) u' p, s\<lparr>creg := st1\<rparr>)"
        using tsteps_get_type_info[of af env t s p st1 "th\<lparr>tprog := cs\<rparr>"] g cr free(1) by auto
      from u u' have "u' = u" by simp
      with k1 idle have k1': "tsteps af env (Suc k1) th s =
          Some (th\<lparr>tprog := cs, ti_local := Some p, tlog := tlog th @ [RetPtr u p]\<rparr>, s\<lparr>creg := st1\<rparr>)"
        using tstep_idle_get[OF idle, of t cs af env s] Cons TGetTypeInfo by (simp add: return_ptr_idle)
      obtain k2 where k2: "tsteps af env k2 (th\<lparr>tprog := cs, ti_local := Some p, tlog := tlog th @ [RetPtr u p]\<rparr>) (s\<lparr>creg := st1\<rparr>) =
          Some (th', s\<lparr>creg := st1\<rparr>\<lparr>creg := r'\<rparr>)"
        using "1.IH"(1)[OF Cons TGetTypeInfo u g refl rec, of "s\<lparr>creg := st1\<rparr>"] idle free by auto
      have "tsteps af env (Suc k1 + k2) th s = Some (th', s\<lparr>creg := r'\<rparr>)"
        unfolding tsteps_add [of af env "Suc k1" k2] using k1' k2 by simp
      then show ?thesis ..
    next
      case (TAddExtension e)
      show ?thesis
      proof (cases "ti_local th")
        case None
        with seq Cons TAddExtension have "th' = th\<lparr>tpc := Panicked NilDereference, tprog := cs\<rparr>" "r' = st"
          by (simp_all add: seq_goroutine.simps)
        with None Cons TAddExtension idle cr show ?thesis by (intro exI[of _ 1]) (simp add: tstep.simps)
      next
        case (Some p)
        have pre: "tpc th = Idle" "tprog th = TAddExtension e # cs" using idle Cons TAddExtension by simp_all
        have lk: "can_lock (obj_lock s p)" using free(2) by simp
        show ?thesis
        proof (cases "add_extension p e st")
          case (Inl err)
          with seq Cons TAddExtension Some have "th' = th\<lparr>tpc := Panicked err, tprog := cs\<rparr>" "r' = st"
            by (simp_all add: seq_goroutine.simps)
          with tsteps_add_extension(1)[OF pre Some lk, of err af env] Inl cr show ?thesis by auto
        next
          case (Inr st1)
          with seq Cons TAddExtension Some have rec:
            "seq_goroutine af env (th\<lparr>tprog := cs, tlog := tlog th @ [RetAdded p e]\<rparr>) st1 = Some (th', r')"
            by (simp add: seq_goroutine.simps)
          have k1: "tsteps af env 5 th s = Some (th\<lparr>tprog := cs, tlog := tlog th @ [RetAdded p e]\<rparr>, s\<lparr>creg := st1\<rparr>)"
            using tsteps_add_extension(2)[OF pre Some lk, of st1 af env] Inr cr by (simp add: thread_idle_upd[OF idle])
          obtain k2 where k2: "tsteps af env k2 (th\<lparr>tprog := cs, tlog := tlog th @ [RetAdded p e]\<rparr>) (s\<lparr>creg := st1\<rparr>) =
              Some (th', s\<lparr>creg := st1\<rparr>\<lparr>creg := r'\<rparr>)"
            using "1.IH"(2)[OF Cons TAddExtension Some Inr rec, of "s\<lparr>creg := st1\<rparr>"] idle free by auto
          have "tsteps af env (5 + k2) th s = Some (th', s\<lparr>creg := r'\<rparr>)"
            unfolding tsteps_add [of af env 5 k2] using k1 k2 by simp
          then show ?thesis ..
        qed
      qed
    next
      case TExtensions
      show ?thesis
      proof (cases "ti_local th")
        case None
        with seq Cons TExtensions have "th' = th\<lparr>tpc := Panicked NilDereference, tprog := cs\<rparr>" "r' = st"
          by (simp_all add: seq_goroutine.simps)
        with None Cons TExtensions idle cr show ?thesis by (intro exI[of _ 1]) (simp add: tstep.simps)
      next
        case (Some p)
        have pre: "tpc th = Idle" "tprog th = TExtensions # cs" using idle Cons TExtensions by simp_all
        have lk: "can_lock (obj_lock s p)" using free(2) by simp
        show ?thesis
        proof (cases "get_extensions p st")
          case (Inl err)
          with seq Cons TExtensions Some have "th' = th\<lparr>tpc := Panicked err, tprog := cs\<rparr>" "r' = st"
            by (simp_all add: seq_goroutine.simps)
          with tsteps_extensions(1)[OF pre Some lk, of err af env] Inl cr show ?thesis by auto
        next
          case (Inr es)
          with seq Cons TExtensions Some have rec:
            "seq_goroutine af env (th\<lparr>tprog := cs, tlog := tlog th @ [RetExts p es]\<rparr>) st = Some (th', r')"
            by (simp add: seq_goroutine.simps)
          have k1: "tsteps af env 4 th s = Some (th\<lparr>tprog := cs, tlog := tlog th @ [RetExts p es]\<rparr>, s)"
            using tsteps_extensions(2)[OF pre Some lk, of es af env] Inr cr by (simp add: thread_idle_upd[OF idle])
          obtain k2 where k2: "tsteps af env k2 (th\<lparr>tprog := cs, tlog := tlog th @ [RetExts p es]\<rparr>) s =
              Some (th', s\<lparr>creg := r'\<rparr>)"
            using "1.IH"(3)[OF Cons TExtensions Some Inr rec, of s] idle free cr by auto
          have "tsteps af env (4 + k2) th s = Some (th', s\<lparr>creg := r'\<rparr>)"
            unfolding tsteps_add [of af env 4 k2] using k1 k2 by simp
          then show ?thesis ..
        qed
      qed
    qed
  qed
qed

section \<open>Properties\<close>

text \<open>
  C16 (refinement).  A goroutine that runs its next call without
  interruption, both kinds of lock being free, computes what the sequential
  \<open>exec_call\<close> computes: for \<open>GetTypeInfo\<close>, \<open>AddExtension\<close> and \<open>Extensions\<close>
  the registry reaches the same state, the locks are released, and the
  goroutine logs a result matching the sequential return value; a sequential
  panic is a panic of the goroutine that leaves the shared state unchanged.
\<close>

theorem solo_refines_exec_call:
  assumes i: "i < length (threads c)" and idle: "tpc (threads c ! i) = Idle"
    and prog: "tprog (threads c ! i) = tc # cs"
    and call: "to_call (ti_local (threads c ! i)) tc = Some call"
    and free: "can_lock (reg_lock (sh c))" "\<forall>q. can_lock (obj_lock (sh c) q)"
    and seq: "exec_call af env call (creg (sh c)) = Some res"
  shows "\<exists>k th' s'. run_sched af env (replicate k i) c = Some \<lparr>sh = s', threads = (threads c)[i := th']\<rparr> \<and>
           tprog th' = cs \<and>
           (case res of
              Inl err \<Rightarrow> tpc th' = Panicked err \<and> s' = sh c
            | Inr (r, st') \<Rightarrow> tpc th' = Idle \<and> s' = (sh c)\<lparr>creg := st'\<rparr> \<and>
                ti_local th' = (case r of RPtr q \<Rightarrow> Some q | _ \<Rightarrow> ti_local (threads c ! i)) \<and>
                (\<exists>x. tlog th' = tlog (threads c ! i) @ [x] \<and> ret_matches r x))"
proof -
  define th where "th = threads c ! i"
  define s where "s = sh c"
  have solo: "\<And>k th' s'. tsteps af env k th s = Some (th', s') \<Longrightarrow>
      run_sched af env (replicate k i) c = Some \<lparr>sh = s', threads = (threads c)[i := th']\<rparr>"
    using tsteps_run_sched[OF i] by (simp add: th_def s_def)
  show ?thesis
  proof (cases tc)
    case (TGetTypeInfo t)
    with call seq obtain p r' where gti: "get_type_info af env t (creg s) = Some (p, r')"
      and res: "res = Inr (RPtr p, r')" by (auto simp: s_def)
    obtain k u where "tsteps af env k (th\<lparr>tprog := cs, tpc := GLoop t\<rparr>) s =
        Some (return_ptr (th\<lparr>tprog := cs\<rparr>) u p, s\<lparr>creg := r'\<rparr>)"
      using tsteps_get_type_info[OF gti free(1)[folded s_def], where th = "th\<lparr>tprog := cs\<rparr>"] by blast
    moreover have "tstep af env th s = Some (th\<lparr>tprog := cs, tpc := GLoop t\<rparr>, s)"
      using idle prog TGetTypeInfo unfolding th_def by (cases "threads c ! i") (simp add: tstep.simps)
    ultimately have "tsteps af env (Suc k) th s = Some (return_ptr (th\<lparr>tprog := cs\<rparr>) u p, s\<lparr>creg := r'\<rparr>)"
      by simp
    from solo[OF this] have "run_sched af env (replicate (Suc k) i) c =
        Some \<lparr>sh = s\<lparr>creg := r'\<rparr>, threads = (threads c)[i := return_ptr (th\<lparr>tprog := cs\<rparr>) u p]\<rparr>" .
    with res show ?thesis
      by (intro exI[of _ "Suc k"]) (auto simp: return_ptr_def s_def th_def simp del: replicate.simps)
  next
    case (TAddExtension e)
    with call obtain p where p: "ti_local th = Some p" and cl: "call = CallAddExtension p e"
      by (cases "ti_local th") (auto simp: th_def)
    have lk: "can_lock (obj_lock s p)" using free(2) by (simp add: s_def)
    have pre: "tpc th = Idle" "tprog th = TAddExtension e # cs" using idle prog TAddExtension by (simp_all add: th_def)
    show ?thesis
    proof (cases "add_extension p e (creg s)")
      case (Inl err)
      with seq cl have "res = Inl err" by (simp add: s_def)
      with solo[OF tsteps_add_extension(1)[OF pre p lk Inl]] show ?thesis by (force simp: s_def)
    next
      case (Inr r')
      with seq cl have "res = Inr (RUnit, r')" by (simp add: s_def)
      with solo[OF tsteps_add_extension(2)[OF pre p lk Inr]] p show ?thesis by (force simp: s_def th_def)
    qed
  next
    case TExtensions
    with call obtain p where p: "ti_local th = Some p" and cl: "call = CallExtensions p"
      by (cases "ti_local th") (auto simp: th_def)
    have lk: "can_lock (obj_lock s p)" using free(2) by (simp add: s_def)
    have pre: "tpc th = Idle" "tprog th = TExtensions # cs" using idle prog TExtensions by (simp_all add: th_def)
    show ?thesis
    proof (cases "get_extensions p (creg s)")
      case (Inl err)
      with seq cl have "res = Inl err" by (simp add: s_def)
      with solo[OF tsteps_extensions(1)[OF pre p lk Inl]] show ?thesis by (force simp: s_def)
    next
      case (Inr es)
      with seq cl have "res = Inr (RExts es, creg s)" by (simp add: s_def)
      with solo[OF tsteps_extensions(2)[OF pre p lk Inr]] p show ?thesis by (force simp: s_def th_def)
    qed
  qed
qed

text \<open>
  C17 (liveness, violated).  A goroutine inside the pointer-stripping loop of
  a type whose chain of \<open>Elem\<close> never ends stays in the loop in every state
  reachable by any interleaving: its \<open>GetTypeInfo\<close> never returns, whatever the
  other goroutines do.
\<close>

theorem loop_diverges_any_schedule:
  assumes "(cstep af env)\<^sup>*\<^sup>* c c'" and "i < length (threads c)"
    and "tpc (threads c ! i) = GLoop t" and "deref env t = None"
  shows "i < length (threads c') \<and> (\<exists>t'. tpc (threads c' ! i) = GLoop t' \<and> deref env t' = None)"
  using assms(1)
proof (induction rule: rtranclp_induct)
  case base
  then show ?case using assms(2-4) by blast
next
  case (step c1 c2)
  then obtain t1 where len: "i < length (threads c1)" and pc: "tpc (threads c1 ! i) = GLoop t1"
    and dv: "deref env t1 = None" by blast
  from step.hyps(2) obtain j th' where j: "j < length (threads c1)" and ths: "threads c2 = (threads c1)[j := th']"
    and st: "tstep af env (threads c1 ! j) (sh c1) = Some (th', sh c2)" by (rule cstep_threads)
  show ?case
  proof (cases "j = i")
    case True
    with tstep_gloop_None[OF pc dv] st have "tpc th' = GLoop (elem_step env t1)" "deref env (elem_step env t1) = None"
      by auto
    with True ths len show ?thesis by auto
  next
    case False
    with ths len pc dv show ?thesis by auto
  qed
qed


text \<open>
  C28 (refinement).  A goroutine that runs its whole program alone, from
  \<open>Idle\<close> with both kinds of lock free, ends exactly as the sequential
  execution \<open>seq_goroutine\<close> of its calls through \<open>get_type_info\<close>,
  \<open>add_extension\<close> and \<open>get_extensions\<close> says: the same final goroutine
  (results, local \<open>ti\<close>, panic) and the same registry, with the locks released.
\<close>

theorem solo_refines_seq_goroutine:
  assumes "i < length (threads c)" and "tpc (threads c ! i) = Idle"
    and "can_lock (reg_lock (sh c))" and "\<forall>q. can_lock (obj_lock (sh c) q)"
    and "seq_goroutine af env (threads c ! i) (creg (sh c)) = Some (th', r')"
  shows "\<exists>k. run_sched af env (replicate k i) c = Some \<lparr>sh = (sh c)\<lparr>creg := r'\<rparr>, threads = (threads c)[i := th']\<rparr>"
proof -
  obtain k where "tsteps af env k (threads c ! i) (sh c) = Some (th', (sh c)\<lparr>creg := r'\<rparr>)"
    using tsteps_seq[OF assms(5,2) refl assms(3,4)] by blast
  with assms(1) show ?thesis by (blast dest: tsteps_run_sched)
qed

theorem solo_refines_exec_call_witness:
  "\<exists>k th' s'. run_sched ex_fields ex_env (replicate k 0)
       (init_state [[TGetTypeInfo 4]] :: (nat, nat) cstate) = Some \<lparr>sh = s', threads = [th']\<rparr> \<and>
     tprog th' = [] \<and> tpc th' = Idle \<and> ti_local th' = Some 0 \<and>
     (\<exists>x. tlog th' = [x] \<and> ret_matches (RPtr 0 :: (nat, nat) ret) x)"
proof -
  have "\<exists>r. exec_call ex_fields ex_env (CallGetTypeInfo 4 :: (nat, nat, nat) call)
      (creg (sh (init_state [[TGetTypeInfo 4]] :: (nat, nat) cstate))) = Some (Inr (RPtr 0, r))"
    by (simp add: reg_simps step_simps ex_env_def)
  then obtain r where seq: "exec_call ex_fields ex_env (CallGetTypeInfo 4 :: (nat, nat, nat) call)
      (creg (sh (init_state [[TGetTypeInfo 4]] :: (nat, nat) cstate))) = Some (Inr (RPtr 0, r))" ..
  show ?thesis
    using solo_refines_exec_call[where i = 0 and c = "init_state [[TGetTypeInfo 4]] :: (nat, nat) cstate"
        and tc = "TGetTypeInfo 4" and cs = "[]" and call = "CallGetTypeInfo 4", OF _ _ _ _ _ _ seq]
    by (auto simp: init_state_def init_thread_def rw_free_def can_lock_def)
qed

lemma ex_env_3_diverges: "deref ex_env 3 = None"
proof -
  have "elem_step ex_env 3 = 3" "is_ptr ex_env 3" by (simp_all add: elem_step_def is_ptr_def kind_def ex_env_def)
  then show ?thesis by (simp add: deref_None_iff)
qed

theorem loop_diverges_any_schedule_witness:
  "\<exists>c c'. run_sched ex_fields ex_env [0] (init_state [[TGetTypeInfo 3]] :: (nat, nat) cstate) = Some c \<and>
     run_sched ex_fields ex_env [0, 0, 0, 0] c = Some c' \<and>
     (\<exists>t'. tpc (threads c' ! 0) = GLoop t' \<and> deref ex_env t' = None)"
proof -
  have "\<exists>c. run_sched ex_fields ex_env [0] (init_state [[TGetTypeInfo 3]] :: (nat, nat) cstate) = Some c \<and>
      length (threads c) = 1 \<and> tpc (threads c ! 0) = GLoop 3 \<and>
      (\<exists>c'. run_sched ex_fields ex_env [0, 0, 0, 0] c = Some c')"
    by (simp add: step_simps is_ptr_def kind_def elem_step_def ex_env_def)
  then obtain c c' where run: "run_sched ex_fields ex_env [0] (init_state [[TGetTypeInfo 3]] :: (nat, nat) cstate) = Some c"
    and len: "length (threads c) = 1" and pc: "tpc (threads c ! 0) = GLoop 3"
    and run': "run_sched ex_fields ex_env [0, 0, 0, 0] c = Some c'" by blast
  from run_sched_reach[OF run'] have "(cstep ex_fields ex_env)\<^sup>*\<^sup>* c c'" .
  from loop_diverges_any_schedule[OF this _ pc ex_env_3_diverges] len run run' show ?thesis by auto
qed

theorem solo_refines_seq_goroutine_witness:
  "\<exists>th' r' k.
     seq_goroutine ex_fields ex_env (init_thread [TGetTypeInfo 4, TAddExtension 7, TExtensions])
       (empty_registry :: (nat, nat) registry) = Some (th', r') \<and>
     tlog th' = [RetPtr 0 0, RetAdded 0 7, RetExts 0 [7]] \<and>
     run_sched ex_fields ex_env (replicate k 0) (init_state [[TGetTypeInfo 4, TAddExtension 7, TExtensions]]) =
       Some \<lparr>sh = (sh (init_state [[TGetTypeInfo 4, TAddExtension 7, TExtensions]]))\<lparr>creg := r'\<rparr>, threads = [th']\<rparr>"
proof -
  have "\<exists>th' r'. seq_goroutine ex_fields ex_env (init_thread [TGetTypeInfo 4, TAddExtension 7, TExtensions])
       (empty_registry :: (nat, nat) registry) = Some (th', r') \<and> tlog th' = [RetPtr 0 0, RetAdded 0 7, RetExts 0 [7]]"
    by (simp add: seq_goroutine.simps init_thread_def reg_simps ex_env_def append_extension_def)
  then obtain th' r' where seq: "seq_goroutine ex_fields ex_env (init_thread [TGetTypeInfo 4, TAddExtension 7, TExtensions])
       (empty_registry :: (nat, nat) registry) = Some (th', r')" and lg: "tlog th' = [RetPtr 0 0, RetAdded 0 7, RetExts 0 [7]]"
    by blast
  have "\<exists>k. run_sched ex_fields ex_env (replicate k 0) (init_state [[TGetTypeInfo 4, TAddExtension 7, TExtensions]]) =
       Some \<lparr>sh = (sh (init_state [[TGetTypeInfo 4, TAddExtension (7::nat), TExtensions]]))\<lparr>creg := r'\<rparr>,
             threads = (threads (init_state [[TGetTypeInfo 4, TAddExtension 7, TExtensions]] :: (nat, nat) cstate))[0 := th']\<rparr>"
    using solo_refines_seq_goroutine[where i = 0 and c = "init_state [[TGetTypeInfo 4, TAddExtension 7, TExtensions]] :: (nat, nat) cstate"
        and af = ex_fields and env = ex_env and th' = th' and r' = r']
      seq by (simp add: init_state_def init_thread_def rw_free_def can_lock_def)
  with seq lg show ?thesis by (auto simp: init_state_def)
qed

end
