(* ===== verification/Slices.thy ===== *)
theory Slices
  imports TypeInfo
begin

text \<open>
  Go slices, as \<open>TypeInfo.extensions\<close> holds one and as \<open>Extensions()\<close>
  returns it (\<open>src/jsoninfo/type_info.go\<close>, lines 65-75).  A slice value is a
  header (backing array, length, capacity); the backing arrays live in a
  store shared by every header that points into them, as the arrays of
  Imperative HOL do.  \<open>append\<close> writes in place when the length is below the
  capacity and otherwise copies into a fresh array whose capacity the
  runtime's growth rule chooses.  The element type of \<open>extensions\<close> is the
  pointer \<open>*ExtensionInfo\<close>, whose zero value nil is \<open>None\<close>.
\<close>

section \<open>Slice headers and backing arrays\<close>

record slice =
  sl_arr :: "ptr option"
  sl_len :: nat
  sl_cap :: nat

type_synonym 'e store = "'e option list list"

definition nil_slice :: slice where
  "nil_slice = \<lparr>sl_arr = None, sl_len = 0, sl_cap = 0\<rparr>"

text \<open>The elements a header sees: the first \<open>len\<close> cells of its array.\<close>

definition slice_elems :: "'e store \<Rightarrow> slice \<Rightarrow> 'e option list" where
  "slice_elems st s =
     (case sl_arr s of None \<Rightarrow> [] | Some a \<Rightarrow> take (sl_len s) (st ! a))"

definition slice_wf :: "'e store \<Rightarrow> slice \<Rightarrow> bool" where
  "slice_wf st s \<longleftrightarrow>
     sl_len s \<le> sl_cap s \<and>
     (case sl_arr s of None \<Rightarrow> sl_cap s = 0 | Some a \<Rightarrow> a < length st \<and> length (st ! a) = sl_cap s)"

section \<open>append\<close>

text \<open>
  The capacity the runtime's \<open>growslice\<close> chooses when one element is
  appended to a full slice of capacity \<open>c\<close> (Go 1.20 and later): double below
  256 elements, then grow by a quarter plus 192.  The allocator may round the
  result up to a size class; \<open>go_append\<close> takes the rule as a parameter, and
  only the bounds below use this one.
\<close>

definition go_grow :: "nat \<Rightarrow> nat" where
  "go_grow c = (if c < 256 then 2 * c else c + (c + 768) div 4)"

definition go_append :: "(nat \<Rightarrow> nat) \<Rightarrow> slice \<Rightarrow> 'e option \<Rightarrow> 'e store \<Rightarrow> slice \<times> 'e store" where
  "go_append grow s x st =
     (case sl_arr s of
        Some a \<Rightarrow>
          if sl_len s < sl_cap s
          then (s\<lparr>sl_len := Suc (sl_len s)\<rparr>, st[a := (st ! a)[sl_len s := x]])
          else
            let c = max (Suc (sl_len s)) (grow (sl_cap s));
                xs = take (sl_len s) (st ! a) @ [x] @ replicate (c - Suc (sl_len s)) None
            in (\<lparr>sl_arr = Some (length st), sl_len = Suc (sl_len s), sl_cap = c\<rparr>, st @ [xs])
      | None \<Rightarrow>
          let c = max (Suc (sl_len s)) (grow (sl_cap s));
              xs = x # replicate (c - 1) None
          in (\<lparr>sl_arr = Some (length st), sl_len = 1, sl_cap = c\<rparr>, st @ [xs]))"

section \<open>Indexing\<close>

text \<open>\<open>xs[i]\<close> and \<open>xs[i] = v\<close>: a panic outside \<open>0 \<le> i < len(xs)\<close>.\<close>

definition slice_get :: "'e store \<Rightarrow> slice \<Rightarrow> nat \<Rightarrow> go_error + 'e option" where
  "slice_get st s i = (if i < sl_len s then Inr (slice_elems st s ! i) else Inl IndexOutOfRange)"

definition slice_set :: "slice \<Rightarrow> nat \<Rightarrow> 'e option \<Rightarrow> 'e store \<Rightarrow> go_error + 'e store" where
  "slice_set s i v st =
     (case sl_arr s of
        Some a \<Rightarrow> if i < sl_len s then Inr (st[a := (st ! a)[i := v]]) else Inl IndexOutOfRange
      | None \<Rightarrow> Inl IndexOutOfRange)"

section \<open>The extensions field as a slice\<close>

text \<open>
  \<^verbatim>\<open>typeInfo.extensions = append(typeInfo.extensions, ext)\<close> (line 68) and
  \<^verbatim>\<open>return typeInfo.extensions\<close> (line 74): the header is stored back into
  the field, and the header itself is what \<open>Extensions()\<close> returns.
\<close>

definition add_extension_sl :: "(nat \<Rightarrow> nat) \<Rightarrow> 'e \<Rightarrow> slice \<times> 'e store \<Rightarrow> slice \<times> 'e store" where
  "add_extension_sl grow ext obj = go_append grow (fst obj) (Some ext) (snd obj)"

definition extensions_sl :: "slice \<times> 'e store \<Rightarrow> slice" where
  "extensions_sl obj = fst obj"

text \<open>The list of extensions the field stands for, as the sequential model has it.\<close>

definition ext_abs :: "slice \<times> 'e store \<Rightarrow> 'e option list" where
  "ext_abs obj = slice_elems (snd obj) (fst obj)"


section \<open>Lemmas on append\<close>

lemma take_Suc_update: "i < length xs \<Longrightarrow> take (Suc i) (xs[i := x]) = take i xs @ [x]"
  by (simp add: take_Suc_conv_app_nth)

lemma go_append_wf_elems:
  assumes "slice_wf st s" "go_append grow s x st = (s', st')"
  shows "slice_wf st' s' \<and> slice_elems st' s' = slice_elems st s @ [x] \<and> sl_len s' = Suc (sl_len s) \<and>
         length st \<le> length st'"
  using assms
  by (auto simp: go_append_def slice_wf_def slice_elems_def Let_def nth_append take_Suc_update
      split: option.splits if_splits)

lemma go_append_frame:
  assumes "slice_wf st s" "slice_wf st t" "go_append grow s x st = (s', st')"
    and "sl_arr t \<noteq> sl_arr s \<or> sl_len t \<le> sl_len s"
  shows "slice_elems st' t = slice_elems st t"
  using assms
  by (auto simp: go_append_def slice_wf_def slice_elems_def Let_def nth_append nth_list_update
      split: option.splits if_splits)

section \<open>Properties\<close>

text \<open>
  C19 (refinement).  \<open>AddExtension\<close> on the slice-valued field implements the
  list append of the sequential model, for any growth rule of the runtime:
  if the field's header is well formed and sees the object's extensions, then
  after the \<open>append\<close> it is well formed and sees them followed by the new one.
\<close>

theorem add_extension_sl_refines:
  assumes "slice_wf (snd obj) (fst obj)" and "ext_abs obj = map Some (extensions ti)"
  shows "slice_wf (snd (add_extension_sl grow e obj)) (fst (add_extension_sl grow e obj)) \<and>
         ext_abs (add_extension_sl grow e obj) = map Some (extensions (append_extension ti e))"
  using go_append_wf_elems[OF assms(1), of grow "Some e"] assms(2)
  by (cases "go_append grow (fst obj) (Some e) (snd obj)") (simp add: add_extension_sl_def ext_abs_def)

text \<open>
  C20 (safety, violated).  \<open>Extensions()\<close> is not a snapshot: it returns the
  field's own header, so a caller that writes \<open>xs[i] = v\<close> into the result,
  for any index below its length, succeeds and changes the extensions every
  later caller of \<open>Extensions()\<close> sees, without taking the object's mutex.
\<close>

theorem extensions_sl_aliases:
  assumes "slice_wf (snd obj) (fst obj)" and "i < length (ext_abs obj)"
  shows "\<exists>st'. slice_set (extensions_sl obj) i v (snd obj) = Inr st' \<and>
           ext_abs (fst obj, st') = (ext_abs obj)[i := v]"
  using assms
  by (auto simp: slice_set_def extensions_sl_def ext_abs_def slice_elems_def slice_wf_def take_update_swap
      split: option.splits)

text \<open>
  C21 (safety, violated).  When the field's backing array has spare capacity,
  a caller that appends its own element \<open>x\<close> to the result of
  \<open>Extensions()\<close>, and then sees another \<open>AddExtension(e)\<close> happen, finds \<open>e\<close>
  in place of \<open>x\<close> in its own slice: both appends write the same cell of the
  shared array.
\<close>

theorem extensions_sl_append_clobbered:
  assumes "slice_wf (snd obj) (fst obj)" and "sl_len (fst obj) < sl_cap (fst obj)"
    and "go_append grow (extensions_sl obj) x (snd obj) = (ys, st1)"
  shows "slice_elems (snd (add_extension_sl grow' e (fst obj, st1))) ys = ext_abs obj @ [Some e]"
  using assms
  by (auto simp: go_append_def add_extension_sl_def extensions_sl_def ext_abs_def slice_elems_def slice_wf_def
      take_Suc_update split: option.splits if_splits)

theorem add_extension_sl_refines_witness:
  "slice_wf (snd (add_extension_sl go_grow (7::nat) (nil_slice, []))) (fst (add_extension_sl go_grow (7::nat) (nil_slice, []))) \<and>
   ext_abs (add_extension_sl go_grow (7::nat) (nil_slice, [])) =
     map Some (extensions (append_extension (zero_type_info 0 :: (nat, nat) type_info) 7))"
  using add_extension_sl_refines[of "(nil_slice, [])" "zero_type_info 0 :: (nat, nat) type_info" go_grow 7]
  by (simp add: slice_wf_def nil_slice_def ext_abs_def slice_elems_def zero_type_info_def)

theorem extensions_sl_aliases_witness:
  "\<exists>st'. slice_set (extensions_sl (add_extension_sl go_grow (7::nat) (nil_slice, []))) 0 (Some 9)
            (snd (add_extension_sl go_grow (7::nat) (nil_slice, []))) = Inr st' \<and>
         ext_abs (fst (add_extension_sl go_grow (7::nat) (nil_slice, [])), st') = [Some 9]"
  using extensions_sl_aliases[of "add_extension_sl go_grow (7::nat) (nil_slice, [])" 0 "Some 9"]
  by (simp add: add_extension_sl_def go_append_def go_grow_def nil_slice_def slice_wf_def ext_abs_def
      slice_elems_def)

theorem extensions_sl_append_clobbered_witness:
  "add_extension_sl go_grow (3::nat) (add_extension_sl go_grow 2 (add_extension_sl go_grow 1 (nil_slice, []))) =
     (\<lparr>sl_arr = Some 2, sl_len = 3, sl_cap = 4\<rparr>, [[Some 1], [Some 1, Some 2], [Some 1, Some 2, Some 3, None]]) \<and>
   go_append go_grow \<lparr>sl_arr = Some 2, sl_len = 3, sl_cap = 4\<rparr> (Some 8)
       [[Some 1], [Some 1, Some 2], [Some 1, Some 2, Some 3, None]] =
     (\<lparr>sl_arr = Some 2, sl_len = 4, sl_cap = 4\<rparr>, [[Some 1], [Some 1, Some 2], [Some 1, Some 2, Some 3, Some 8]]) \<and>
   slice_elems (snd (add_extension_sl go_grow 4 (\<lparr>sl_arr = Some 2, sl_len = 3, sl_cap = 4\<rparr>,
       [[Some 1], [Some 1, Some 2], [Some 1, Some 2, Some 3, Some 8]])))
     \<lparr>sl_arr = Some 2, sl_len = 4, sl_cap = 4\<rparr> = [Some 1, Some 2, Some 3, Some 4]"
proof -
  have app: "go_append go_grow (extensions_sl (\<lparr>sl_arr = Some 2, sl_len = 3, sl_cap = 4\<rparr>,
       [[Some 1], [Some 1, Some 2], [Some 1, Some 2, Some (3::nat), None]])) (Some 8)
       (snd (\<lparr>sl_arr = Some 2, sl_len = 3, sl_cap = 4\<rparr>, [[Some 1], [Some 1, Some 2], [Some 1, Some 2, Some 3, None]])) =
     (\<lparr>sl_arr = Some 2, sl_len = 4, sl_cap = 4\<rparr>, [[Some 1], [Some 1, Some 2], [Some 1, Some 2, Some 3, Some 8]])"
    by (simp add: go_append_def extensions_sl_def)
  have "slice_elems (snd (add_extension_sl go_grow (4::nat) (\<lparr>sl_arr = Some 2, sl_len = 3, sl_cap = 4\<rparr>,
       [[Some 1], [Some 1, Some 2], [Some 1, Some 2, Some 3, Some 8]])))
     \<lparr>sl_arr = Some 2, sl_len = 4, sl_cap = 4\<rparr> =
     ext_abs (\<lparr>sl_arr = Some 2, sl_len = 3, sl_cap = 4\<rparr>, [[Some 1], [Some 1, Some 2], [Some 1, Some 2, Some 3, None]]) @ [Some 4]"
    using extensions_sl_append_clobbered[OF _ _ app] by (simp add: slice_wf_def)
  then show ?thesis
    by (simp add: add_extension_sl_def go_append_def go_grow_def nil_slice_def ext_abs_def slice_elems_def)
qed

end
