(* ===== verification/FieldEnum.thy ===== *)
theory FieldEnum
  imports Registry
begin

text \<open>
  A field enumerator with the contract of spec sections 4.2 and 6 (the
  collaborator \<open>AppendFields(fields, parentIndex, t)\<close> of \<open>field_info.go\<close>, not
  under \<open>src/\<close>): for a struct it appends one \<open>FieldInfo\<close> per serializable
  field, in declaration order, with the field's index path as locator, and
  flattens embedded structs (\<open>T\<close> or \<open>*T\<close>) into the same accumulator.  The
  spec leaves the struct-tag syntax open, so the wire name of a field is a
  parameter \<open>wn\<close> (\<open>None\<close>: the field is not serialized, e.g. unexported or
  tagged \<open>"-"\<close>); function and channel fields are never serialized.  It
  asks implementers to choose a cycle guard: the enumerator does not
  flatten a struct already on the current embedding path (\<open>vis\<close>), and it
  flattens only types the program declares (\<open>decls\<close>, a finite list), which
  makes the recursion terminate on every environment.
\<close>

section \<open>The enumerator\<close>

type_synonym wire_namer = "sfield \<Rightarrow> string option"

text \<open>The struct an embedded field's type denotes, through at most one pointer.\<close>

definition elem_struct :: "tenv \<Rightarrow> tid \<Rightarrow> (tid \<times> sfield list) option" where
  "elem_struct env t =
     (case env t of
        DStruct fs \<Rightarrow> Some (t, fs)
      | DPtr u \<Rightarrow> (case env u of DStruct fs \<Rightarrow> Some (u, fs) | _ \<Rightarrow> None)
      | _ \<Rightarrow> None)"

definition serializable :: "tenv \<Rightarrow> sfield \<Rightarrow> bool" where
  "serializable env f \<longleftrightarrow> kind env (sf_type f) \<noteq> KFunc \<and> kind env (sf_type f) \<noteq> KChan"

text \<open>The entry a plain field contributes, if any.\<close>

definition plain_field :: "wire_namer \<Rightarrow> tenv \<Rightarrow> nat list \<Rightarrow> sfield \<Rightarrow> field_info list" where
  "plain_field wn env idx f =
     (if serializable env f then (case wn f of None \<Rightarrow> [] | Some n \<Rightarrow> [FieldInfo idx (sf_type f) n]) else [])"

function enum_fields ::
  "wire_namer \<Rightarrow> tenv \<Rightarrow> tid list \<Rightarrow> tid list \<Rightarrow> field_info list \<Rightarrow> nat list \<Rightarrow> nat \<Rightarrow> sfield list
     \<Rightarrow> field_info list" where
  "enum_fields wn env decls vis acc parent i [] = acc"
| "enum_fields wn env decls vis acc parent i (f # fs) =
     enum_fields wn env decls vis
       (if sf_embedded f \<and> elem_struct env (sf_type f) \<noteq> None then
          (case elem_struct env (sf_type f) of
             Some (u, gs) \<Rightarrow>
               if u \<in> set decls \<and> u \<notin> set vis
               then enum_fields wn env decls (u # vis) acc (parent @ [i]) 0 gs
               else acc
           | None \<Rightarrow> acc)
        else acc @ plain_field wn env (parent @ [i]) f)
       parent (Suc i) fs"
  by pat_completeness auto

termination
proof (relation "measures [\<lambda>(wn, env, decls, vis, acc, parent, i, fs). card (set decls - set vis),
                            \<lambda>(wn, env, decls, vis, acc, parent, i, fs). length fs]", goal_cases)
  case 1
  show ?case by simp
next
  case (2 wn env decls vis acc parent i f fs x2 u gs)
  then have "u \<in> set decls - set vis" by simp
  then have "card (set decls - set vis - {u}) < card (set decls - set vis)"
    by (rule card_Diff1_less [rotated]) simp
  moreover have "set decls - set (u # vis) = set decls - set vis - {u}" by auto
  ultimately show ?case by simp
next
  case 3
  then show ?case by simp
qed

text \<open>\<open>AppendFields(fields, parentIndex, t)\<close> for a struct \<open>t\<close> (or a pointer to one).\<close>

definition append_fields_spec :: "wire_namer \<Rightarrow> tenv \<Rightarrow> tid list \<Rightarrow> enumerator" where
  "append_fields_spec wn env decls acc parent t =
     (case elem_struct env t of
        Some (u, fs) \<Rightarrow> enum_fields wn env decls [u] acc parent 0 fs
      | None \<Rightarrow> acc)"


text \<open>
  The reference for a struct without embedded fields, written independently of
  the enumerator: the fields with a wire name whose kind is neither \<open>func\<close> nor
  \<open>chan\<close>, in declaration order, the \<open>j\<close>-th at \<open>parent @ [j]\<close>.
\<close>

definition direct_fields :: "wire_namer \<Rightarrow> tenv \<Rightarrow> nat list \<Rightarrow> nat \<Rightarrow> sfield list \<Rightarrow> field_info list" where
  "direct_fields wn env parent i fs =
     [FieldInfo (parent @ [j]) (sf_type f) (the (wn f)).
        (j, f) \<leftarrow> enumerate i fs, wn f \<noteq> None \<and> kind env (sf_type f) \<notin> {KFunc, KChan}]"

text \<open>The struct field a returned \<open>FieldInfo\<close> comes from: serialised, named by the wire namer, of its type.\<close>

definition field_source :: "wire_namer \<Rightarrow> tenv \<Rightarrow> sfield \<Rightarrow> field_info \<Rightarrow> bool" where
  "field_source wn env f g \<longleftrightarrow> serializable env f \<and> wn f = Some (json_name g) \<and> fi_type g = sf_type f"

section \<open>An example with a promoted field and an embedding cycle\<close>

text \<open>
  Type 5 is \<open>struct { Base; X T2 `json:"x"`; Cb func() }\<close>, type 6 is
  \<open>Base struct { *Outer; Y T2 `json:"x"` }\<close> with \<open>Outer\<close> (8) a pointer to 5:
  the embedding 5, 6, 5 is a cycle, and \<open>X\<close> and the promoted \<open>Y\<close> share the
  wire name \<open>x\<close>.  The wire name is the tag, or the Go name without one.
\<close>

definition ex_env2 :: tenv where
  "ex_env2 t =
     (if t = 5 then DStruct [SField ''Base'' '''' True 6, SField ''X'' ''x'' False 2, SField ''Cb'' '''' False 7]
      else if t = 6 then DStruct [SField ''Outer'' '''' True 8, SField ''Y'' ''x'' False 2]
      else if t = 7 then DFunc
      else if t = 8 then DPtr 5
      else DBasic ''string'')"

definition ex_wn :: wire_namer where
  "ex_wn f = Some (if sf_tag f = '''' then sf_name f else sf_tag f)"

section \<open>Lemmas\<close>

lemma plain_field_index: "g \<in> set (plain_field wn env idx f) \<Longrightarrow> fi_index g = idx"
  by (cases "serializable env f"; cases "wn f") (auto simp: plain_field_def)

lemma distinct_plain_field: "distinct (map fi_index (plain_field wn env idx f))"
  by (auto simp: plain_field_def split: option.splits)

lemma enum_fields_acc:
  fixes acc :: "field_info list"
  shows "\<forall>a. enum_fields wn env decls vis a parent i fs = a @ enum_fields wn env decls vis [] parent i fs"
proof (induction wn env decls vis acc parent i fs rule: enum_fields.induct)
  case (2 wn env decls vis acc parent i f fs)
  let ?E = "\<lambda>a. enum_fields wn env decls vis a parent (Suc i) fs"
  have out: "\<And>a. ?E a = a @ ?E []" using "2.IH"(2) by blast
  show ?case
  proof
    fix a
    show "enum_fields wn env decls vis a parent i (f # fs) = a @ enum_fields wn env decls vis [] parent i (f # fs)"
    proof (cases "sf_embedded f \<and> elem_struct env (sf_type f) \<noteq> None")
      case True
      then obtain u gs where es: "elem_struct env (sf_type f) = Some (u, gs)" by auto
      show ?thesis
      proof (cases "u \<in> set decls \<and> u \<notin> set vis")
        case dec: True
        let ?I = "\<lambda>a. enum_fields wn env decls (u # vis) a (parent @ [i]) 0 gs"
        have inner: "\<And>a. ?I a = a @ ?I []" using "2.IH"(1)[OF True es refl dec] by blast
        have "enum_fields wn env decls vis a parent i (f # fs) = ?E (?I a)" using True es dec by simp
        also have "\<dots> = ?I a @ ?E []" by (rule out)
        also have "\<dots> = a @ ?I [] @ ?E []" by (simp only: inner [of a] append_assoc)
        also have "\<dots> = a @ ?E (?I [])" by (simp only: out [of "?I []"])
        also have "?E (?I []) = enum_fields wn env decls vis [] parent i (f # fs)" using True es dec by simp
        finally show ?thesis .
      next
        case False
        then have "\<not> (u \<in> set decls \<and> u \<notin> set vis)" .
        with True es show ?thesis by (cases "u \<in> set decls") (simp_all add: out [of a])
      qed
    next
      case False
      then have "enum_fields wn env decls vis a parent i (f # fs) = ?E (a @ plain_field wn env (parent @ [i]) f)"
        and "enum_fields wn env decls vis [] parent i (f # fs) = ?E (plain_field wn env (parent @ [i]) f)"
        by auto
      then show ?thesis by (simp only: out [of "a @ plain_field wn env (parent @ [i]) f"]
          out [of "plain_field wn env (parent @ [i]) f"] append_assoc)
    qed
  qed
qed simp

lemmas enum_fields_acc' = enum_fields_acc [rule_format]


text \<open>One field of the loop contributes a block, followed by the rest of the loop.\<close>

lemma enum_fields_Cons:
  "\<exists>S. enum_fields wn env decls vis [] parent i (f # fs) = S @ enum_fields wn env decls vis [] parent (Suc i) fs \<and>
     (S = plain_field wn env (parent @ [i]) f \<or> S = [] \<or>
      (\<exists>u gs. sf_embedded f \<and> elem_struct env (sf_type f) = Some (u, gs) \<and> u \<in> set decls \<and> u \<notin> set vis \<and>
              S = enum_fields wn env decls (u # vis) [] (parent @ [i]) 0 gs))"
proof (cases "sf_embedded f \<and> elem_struct env (sf_type f) \<noteq> None")
  case True
  then obtain u gs where es: "elem_struct env (sf_type f) = Some (u, gs)" by auto
  show ?thesis
  proof (cases "u \<in> set decls \<and> u \<notin> set vis")
    case True
    with \<open>sf_embedded f \<and> elem_struct env (sf_type f) \<noteq> None\<close> es show ?thesis
      by (intro exI[of _ "enum_fields wn env decls (u # vis) [] (parent @ [i]) 0 gs"])
         (simp add: enum_fields_acc' [of _ _ _ _ "enum_fields wn env decls (u # vis) [] (parent @ [i]) 0 gs"])
  next
    case False
    with True es show ?thesis by (intro exI[of _ "[]"]) auto
  qed
next
  case False
  show ?thesis
    unfolding enum_fields.simps(2) if_not_P[OF False]
    by (intro exI[of _ "plain_field wn env (parent @ [i]) f"])
       (simp add: enum_fields_acc' [of _ _ _ _ "plain_field wn env (parent @ [i]) f"])
qed

lemma enum_fields_locators:
  fixes acc :: "field_info list"
  shows "distinct (map fi_index (enum_fields wn env decls vis [] parent i fs)) \<and>
         (\<forall>g \<in> set (enum_fields wn env decls vis [] parent i fs).
            \<exists>j r. fi_index g = parent @ j # r \<and> i \<le> j \<and> j < i + length fs)"
proof (induction wn env decls vis acc parent i fs rule: enum_fields.induct)
  case (2 wn env decls vis acc parent i f fs)
  let ?R = "enum_fields wn env decls vis [] parent (Suc i) fs"
  obtain S where eq: "enum_fields wn env decls vis [] parent i (f # fs) = S @ ?R"
    and cases: "S = plain_field wn env (parent @ [i]) f \<or> S = [] \<or>
      (\<exists>u gs. sf_embedded f \<and> elem_struct env (sf_type f) = Some (u, gs) \<and> u \<in> set decls \<and> u \<notin> set vis \<and>
              S = enum_fields wn env decls (u # vis) [] (parent @ [i]) 0 gs)"
    using enum_fields_Cons by blast
  have S: "distinct (map fi_index S) \<and> (\<forall>g \<in> set S. \<exists>r. fi_index g = parent @ i # r)"
  proof -
    { assume "S = plain_field wn env (parent @ [i]) f"
      then have ?thesis using distinct_plain_field plain_field_index by fastforce }
    moreover
    { fix u gs assume h: "sf_embedded f" "elem_struct env (sf_type f) = Some (u, gs)" "u \<in> set decls \<and> u \<notin> set vis"
        and s: "S = enum_fields wn env decls (u # vis) [] (parent @ [i]) 0 gs"
      have ?thesis using "2.IH"(1)[OF _ h(2) refl h(3)] h(1,2) s by fastforce }
    ultimately show ?thesis using cases by auto
  qed
  have R: "distinct (map fi_index ?R) \<and>
      (\<forall>g \<in> set ?R. \<exists>j r. fi_index g = parent @ j # r \<and> Suc i \<le> j \<and> j < Suc i + length fs)"
    using "2.IH"(2) by blast
  have disj: "set (map fi_index S) \<inter> set (map fi_index ?R) = {}"
    using S R by fastforce
  show ?case unfolding eq using S R disj by fastforce
qed simp

lemma enum_fields_depth:
  fixes acc :: "field_info list"
  shows "\<forall>g \<in> set (enum_fields wn env decls vis [] parent i fs).
           length (fi_index g) \<le> length parent + Suc (card (set decls - set vis))"
proof (induction wn env decls vis acc parent i fs rule: enum_fields.induct)
  case (2 wn env decls vis acc parent i f fs)
  let ?R = "enum_fields wn env decls vis [] parent (Suc i) fs"
  obtain S where eq: "enum_fields wn env decls vis [] parent i (f # fs) = S @ ?R"
    and cases: "S = plain_field wn env (parent @ [i]) f \<or> S = [] \<or>
      (\<exists>u gs. sf_embedded f \<and> elem_struct env (sf_type f) = Some (u, gs) \<and> u \<in> set decls \<and> u \<notin> set vis \<and>
              S = enum_fields wn env decls (u # vis) [] (parent @ [i]) 0 gs)"
    using enum_fields_Cons by blast
  have "\<forall>g \<in> set S. length (fi_index g) \<le> length parent + Suc (card (set decls - set vis))"
  proof -
    { assume "S = plain_field wn env (parent @ [i]) f"
      then have ?thesis using plain_field_index by fastforce }
    moreover
    { fix u gs assume h: "sf_embedded f" "elem_struct env (sf_type f) = Some (u, gs)" "u \<in> set decls \<and> u \<notin> set vis"
        and s: "S = enum_fields wn env decls (u # vis) [] (parent @ [i]) 0 gs"
      have mem: "u \<in> set decls - set vis" using h(3) by simp
      then have "card (set decls - set (u # vis)) = card (set decls - set vis) - 1"
        by (simp add: Diff_insert [symmetric] card_Diff_singleton)
      moreover have "0 < card (set decls - set vis)" using mem by (auto simp: card_gt_0_iff)
      ultimately have ?thesis using "2.IH"(1)[OF _ h(2) refl h(3)] h(1,2) s by fastforce }
    ultimately show ?thesis using cases by auto
  qed
  then show ?case unfolding eq using "2.IH"(2) by auto
qed simp

lemma append_fields_spec_distinct: "distinct (append_fields_spec wn env decls [] parent t)"
  using enum_fields_locators[where i = 0]
  by (auto simp: append_fields_spec_def distinct_map split: option.splits)

text \<open>The enumerator extends whatever accumulator it is given (the contract of spec section 6).\<close>

lemma append_fields_spec_extends:
  "append_fields_spec wn env decls acc parent t = acc @ append_fields_spec wn env decls [] parent t"
  by (simp add: append_fields_spec_def enum_fields_acc' [of _ _ _ _ acc] split: option.splits)

lemma plain_field_source: "g \<in> set (plain_field wn env idx f) \<Longrightarrow> field_source wn env f g"
  by (cases "serializable env f"; cases "wn f") (auto simp: plain_field_def field_source_def)

lemma elem_struct_SomeD: "elem_struct env t = Some (u, gs) \<Longrightarrow> env u = DStruct gs"
  by (auto simp: elem_struct_def split: tdesc.splits)

lemma elem_struct_struct: "kind env t = KStruct \<Longrightarrow> \<exists>fs. env t = DStruct fs \<and> elem_struct env t = Some (t, fs)"
  by (cases "env t") (simp_all add: kind_def elem_struct_def)

lemma distinct_map_sort_fields: "distinct (map h (sort_fields xs)) \<longleftrightarrow> distinct (map h xs)"
  by (metis mset_map mset_sort_fields mset_eq_imp_distinct_iff)

lemma set_sort_fields [simp]: "set (sort_fields xs) = set xs"
  by (simp add: sort_fields_def)

lemma enum_fields_sources:
  fixes acc :: "field_info list"
  shows "\<forall>g \<in> set (enum_fields wn env decls vis [] parent i fs).
           (\<exists>f \<in> set fs. field_source wn env f g) \<or>
           (\<exists>u gs f. u \<in> set decls \<and> env u = DStruct gs \<and> f \<in> set gs \<and> field_source wn env f g)"
proof (induction wn env decls vis acc parent i fs rule: enum_fields.induct)
  case (2 wn env decls vis acc parent i f fs)
  let ?R = "enum_fields wn env decls vis [] parent (Suc i) fs"
  let ?P = "\<lambda>g. (\<exists>f' \<in> set (f # fs). field_source wn env f' g) \<or>
           (\<exists>u gs f. u \<in> set decls \<and> env u = DStruct gs \<and> f \<in> set gs \<and> field_source wn env f g)"
  obtain S where eq: "enum_fields wn env decls vis [] parent i (f # fs) = S @ ?R"
    and cases: "S = plain_field wn env (parent @ [i]) f \<or> S = [] \<or>
      (\<exists>u gs. sf_embedded f \<and> elem_struct env (sf_type f) = Some (u, gs) \<and> u \<in> set decls \<and> u \<notin> set vis \<and>
              S = enum_fields wn env decls (u # vis) [] (parent @ [i]) 0 gs)"
    using enum_fields_Cons by blast
  have "\<forall>g \<in> set S. ?P g"
    using cases
  proof (elim disjE exE conjE)
    assume "S = plain_field wn env (parent @ [i]) f"
    then show ?thesis using plain_field_source by fastforce
  next
    fix u gs assume h: "sf_embedded f" "elem_struct env (sf_type f) = Some (u, gs)" "u \<in> set decls" "u \<notin> set vis"
      and s: "S = enum_fields wn env decls (u # vis) [] (parent @ [i]) 0 gs"
    have u: "env u = DStruct gs" using h(2) by (rule elem_struct_SomeD)
    have "\<forall>g \<in> set S. (\<exists>f \<in> set gs. field_source wn env f g) \<or>
         (\<exists>u gs f. u \<in> set decls \<and> env u = DStruct gs \<and> f \<in> set gs \<and> field_source wn env f g)"
      using "2.IH"(1)[OF _ h(2) refl] h s by auto
    then show ?thesis using u h(3) by blast
  qed simp
  moreover have "\<forall>g \<in> set ?R. ?P g" using "2.IH"(2) by auto
  ultimately show ?case unfolding eq by auto
qed simp

lemma computed_fields_spec:
  "kind env t = KStruct \<Longrightarrow> \<exists>fs. env t = DStruct fs \<and>
     computed_fields (append_fields_spec wn env decls) env t = sort_fields (enum_fields wn env decls [t] [] [] 0 fs)"
  by (frule elem_struct_struct) (auto simp: computed_fields_def append_fields_spec_def)

section \<open>Properties\<close>

text \<open>
  C22 (functional).  Every entry of the \<open>Fields\<close> that \<open>GetTypeInfo\<close> computes
  with this enumerator comes from a field of the type's own struct or of a
  declared struct: a serializable field (not \<open>func\<close> or \<open>chan\<close>) whose wire
  name and type it carries.
\<close>

theorem computed_fields_sources:
  assumes "g \<in> set (computed_fields (append_fields_spec wn env decls) env t)"
  shows "\<exists>u gs f. (u = t \<or> u \<in> set decls) \<and> env u = DStruct gs \<and> f \<in> set gs \<and>
           serializable env f \<and> wn f = Some (json_name g) \<and> fi_type g = sf_type f"
proof -
  have k: "kind env t = KStruct" using assms by (simp add: computed_fields_def split: if_splits)
  then obtain fs where t: "env t = DStruct fs"
    and c: "computed_fields (append_fields_spec wn env decls) env t = sort_fields (enum_fields wn env decls [t] [] [] 0 fs)"
    using computed_fields_spec by blast
  have "(\<exists>f \<in> set fs. field_source wn env f g) \<or>
        (\<exists>u gs f. u \<in> set decls \<and> env u = DStruct gs \<and> f \<in> set gs \<and> field_source wn env f g)"
    using enum_fields_sources[where i = 0] assms unfolding c by auto
  then show ?thesis using t unfolding field_source_def by blast
qed

text \<open>
  C23 (functional).  The locators of the computed \<open>Fields\<close>, promoted fields
  of embedded structs included, are pairwise distinct and none is empty: each
  entry is found at its own index path below the type.
\<close>

theorem computed_fields_locators:
  "distinct (map fi_index (computed_fields (append_fields_spec wn env decls) env t)) \<and>
   (\<forall>g \<in> set (computed_fields (append_fields_spec wn env decls) env t). \<exists>j r. fi_index g = j # r)"
proof (cases "kind env t = KStruct")
  case True
  then obtain fs where "computed_fields (append_fields_spec wn env decls) env t = sort_fields (enum_fields wn env decls [t] [] [] 0 fs)"
    using computed_fields_spec by blast
  then show ?thesis using enum_fields_locators[where i = 0 and parent = "[]"] by (fastforce simp: distinct_map_sort_fields)
qed (simp add: computed_fields_def)

text \<open>
  C24 (bounds).  The cycle guard bounds the recursion through embedded structs,
  cyclic embeddings included: no locator of the computed \<open>Fields\<close> is longer
  than one plus the number of declared types.
\<close>

theorem computed_fields_depth:
  "g \<in> set (computed_fields (append_fields_spec wn env decls) env t) \<Longrightarrow> length (fi_index g) \<le> Suc (length decls)"
proof -
  assume g: "g \<in> set (computed_fields (append_fields_spec wn env decls) env t)"
  then have "kind env t = KStruct" by (simp add: computed_fields_def split: if_splits)
  then obtain fs where "computed_fields (append_fields_spec wn env decls) env t = sort_fields (enum_fields wn env decls [t] [] [] 0 fs)"
    using computed_fields_spec by blast
  with g have "length (fi_index g) \<le> Suc (card (set decls - set [t]))"
    using enum_fields_depth[where parent = "[]"] by fastforce
  moreover have "card (set decls - set [t]) \<le> length decls"
    using card_mono[of "set decls" "set decls - set [t]"] card_length[of decls] by auto
  ultimately show ?thesis by simp
qed

text \<open>
  C25 (equivalence).  For a struct without embedded fields the computed
  \<open>Fields\<close> are the sorted reference \<open>direct_fields\<close>: the fields with a wire
  name whose kind is neither \<open>func\<close> nor \<open>chan\<close>, the \<open>i\<close>-th at index path
  \<open>[i]\<close>.
\<close>

theorem computed_fields_flat:
  assumes "env t = DStruct fs" and "\<forall>f \<in> set fs. \<not> sf_embedded f"
  shows "computed_fields (append_fields_spec wn env decls) env t = sort_fields (direct_fields wn env [] 0 fs)"
proof -
  have "\<forall>f \<in> set fs. \<not> sf_embedded f \<Longrightarrow>
        enum_fields wn env decls vis [] parent i fs = direct_fields wn env parent i fs" for vis parent i
  proof (induction fs arbitrary: i)
    case (Cons f fs)
    then have "enum_fields wn env decls vis [] parent i (f # fs) =
               plain_field wn env (parent @ [i]) f @ enum_fields wn env decls vis [] parent (Suc i) fs"
      by (simp add: enum_fields_acc' [of _ _ _ _ "plain_field wn env (parent @ [i]) f"])
    with Cons show ?case
      by (cases "wn f") (simp_all add: direct_fields_def plain_field_def serializable_def)
  qed (simp add: direct_fields_def)
  with assms show ?thesis by (simp add: computed_fields_def append_fields_spec_def elem_struct_def kind_def)
qed

text \<open>
  C26 (functional).  Composed with this enumerator, \<open>GetTypeInfo\<close> returns
  objects whose \<open>Fields\<close> are strictly sorted: no two enumerated fields tie in
  the sortable order, so the order is fully determined by the type (spec
  section 2, deterministic \<open>Fields\<close>).
\<close>

theorem get_type_info_spec_fields_strict:
  assumes "reg_wf (append_fields_spec wn env decls) env st"
    and "get_type_info (append_fields_spec wn env decls) env t st = Some (p, st')"
    and "heap st' p = Some ti"
  shows "sorted_wrt (<) (ti_fields ti)"
proof -
  obtain u ti' where "heap st' p = Some ti'" "ti_type ti' = u" "obj_wf (append_fields_spec wn env decls) env ti'"
    using get_type_info_obj[OF assms(1,2)] by blast
  with assms(3) have f: "ti_fields ti = computed_fields (append_fields_spec wn env decls) env (ti_type ti)"
    by (simp add: obj_wf_def)
  have "distinct (append_fields_spec wn env decls [] [] (ti_type ti))"
    by (rule append_fields_spec_distinct)
  then show ?thesis
    by (simp add: f computed_fields_def sort_fields_def strict_sorted_iff)
qed

lemma ex_enum_5:
  "append_fields_spec ex_wn ex_env2 [5, 6] [] [] 5 = [FieldInfo [0, 1] 2 ''x'', FieldInfo [1] 2 ''x'']"
  by (simp add: append_fields_spec_def elem_struct_def ex_env2_def plain_field_def serializable_def kind_def ex_wn_def)

lemma ex_computed_5:
  "set (computed_fields (append_fields_spec ex_wn ex_env2 [5, 6]) ex_env2 5) = {FieldInfo [0, 1] 2 ''x'', FieldInfo [1] 2 ''x''}"
  using ex_enum_5 by (auto simp: computed_fields_def kind_def ex_env2_def)

theorem computed_fields_sources_witness:
  "FieldInfo [0, 1] 2 ''x'' \<in> set (computed_fields (append_fields_spec ex_wn ex_env2 [5, 6]) ex_env2 5) \<and>
   (\<exists>u gs f. (u = 5 \<or> u \<in> set [5, 6]) \<and> ex_env2 u = DStruct gs \<and> f \<in> set gs \<and>
      serializable ex_env2 f \<and> ex_wn f = Some (json_name (FieldInfo [0, 1] 2 ''x'')) \<and>
      fi_type (FieldInfo [0, 1] 2 ''x'') = sf_type f)"
  using computed_fields_sources[where g = "FieldInfo [0, 1] 2 ''x''" and wn = ex_wn and env = ex_env2
      and decls = "[5, 6]" and t = 5]
    ex_computed_5 by simp

theorem computed_fields_locators_witness:
  "set (computed_fields (append_fields_spec ex_wn ex_env2 [5, 6]) ex_env2 5) = {FieldInfo [0, 1] 2 ''x'', FieldInfo [1] 2 ''x''} \<and>
   distinct (map fi_index (computed_fields (append_fields_spec ex_wn ex_env2 [5, 6]) ex_env2 5)) \<and>
   (\<exists>j r. fi_index (FieldInfo [0, 1] 2 ''x'') = j # r) \<and> (\<exists>j r. fi_index (FieldInfo [1] 2 ''x'') = j # r)"
  using computed_fields_locators[where wn = ex_wn and env = ex_env2 and decls = "[5, 6]" and t = 5] ex_computed_5
  by simp

theorem computed_fields_depth_witness:
  "FieldInfo [0, 1] 2 ''x'' \<in> set (computed_fields (append_fields_spec ex_wn ex_env2 [5, 6]) ex_env2 5) \<and>
   length (fi_index (FieldInfo [0, 1] 2 ''x'')) \<le> Suc (length [5, 6 :: nat])"
  using computed_fields_depth[where g = "FieldInfo [0, 1] 2 ''x''" and wn = ex_wn and env = ex_env2
      and decls = "[5, 6]" and t = 5]
    ex_computed_5 by simp

theorem computed_fields_flat_witness:
  "ex_env 0 = DStruct [SField ''B'' ''b'' False 2, SField ''A'' '''' False 2, SField ''C'' ''a'' False 2] \<and>
   computed_fields (append_fields_spec ex_wn ex_env []) ex_env 0 =
     sort_fields (direct_fields ex_wn ex_env [] 0 [SField ''B'' ''b'' False 2, SField ''A'' '''' False 2, SField ''C'' ''a'' False 2]) \<and>
   direct_fields ex_wn ex_env [] 0 [SField ''B'' ''b'' False 2, SField ''A'' '''' False 2, SField ''C'' ''a'' False 2] =
     [FieldInfo [0] 2 ''b'', FieldInfo [1] 2 ''A'', FieldInfo [2] 2 ''a'']"
proof -
  have e: "ex_env 0 = DStruct [SField ''B'' ''b'' False 2, SField ''A'' '''' False 2, SField ''C'' ''a'' False 2]"
    by (simp add: ex_env_def)
  show ?thesis
    using computed_fields_flat[where env = ex_env and t = 0 and wn = ex_wn and decls = "[]", OF e] e
    by (simp add: direct_fields_def plain_field_def serializable_def kind_def ex_env_def ex_wn_def)
qed

theorem get_type_info_spec_fields_strict_witness:
  "\<exists>st' ti. reg_wf (append_fields_spec ex_wn ex_env2 [5, 6]) ex_env2 (empty_registry :: (nat, nat) registry) \<and>
     get_type_info (append_fields_spec ex_wn ex_env2 [5, 6]) ex_env2 5 (empty_registry :: (nat, nat) registry) = Some (0, st') \<and>
     heap st' 0 = Some ti \<and> sorted_wrt (<) (ti_fields ti) \<and> field_names ti = [''x'', ''x'']"
proof -
  have h1: "reg_wf (append_fields_spec ex_wn ex_env2 [5, 6]) ex_env2 (empty_registry :: (nat, nat) registry)"
    by (rule reg_wf_empty)
  have "\<exists>st' ti. get_type_info (append_fields_spec ex_wn ex_env2 [5, 6]) ex_env2 5 (empty_registry :: (nat, nat) registry) = Some (0, st') \<and>
      heap st' 0 = Some ti \<and> field_names ti = [''x'', ''x'']"
    using ex_enum_5 by (simp add: reg_simps ex_env2_def new_type_info_def zero_type_info_def kind_def
        sort_fields_def field_names_def)
  then obtain st' ti where h2: "get_type_info (append_fields_spec ex_wn ex_env2 [5, 6]) ex_env2 5 (empty_registry :: (nat, nat) registry) = Some (0, st')"
    and h3: "heap st' 0 = Some ti" and n: "field_names ti = [''x'', ''x'']" by blast
  show ?thesis using get_type_info_spec_fields_strict[OF h1 h2 h3] h1 h2 h3 n by blast
qed

end
