(* ===== verification/Spec2Isabelle.thy ===== *)
theory Spec2Isabelle
  imports Solo Slices FieldEnum
begin

text \<open>
  \<^bold>\<open>A verification library for the type-metadata cache of kin-openapi's
  jsoninfo package\<close> (\<open>src/jsoninfo/type_info.go\<close>).

  \<^bold>\<open>The program.\<close>  \<open>GetTypeInfo(t)\<close> strips pointer types from \<open>t\<close>
  (lines 31-33), looks the result up in the process-wide map \<open>typeInfos\<close> under
  the read lock \<open>typeInfosMutex.RLock\<close> (34-39), and on a miss computes a fresh
  \<open>TypeInfo\<close> without holding the lock (40-56: for a struct, the fields
  enumerated by \<open>AppendFields\<close> and sorted by \<open>sortableFieldInfos\<close>; for any
  other kind, no fields), then stores it under the write lock and returns it
  (58-62).  \<open>GetTypeInfoForValue\<close> (25-27) applies it to
  \<open>reflect.TypeOf(value)\<close>.  A \<open>TypeInfo\<close> carries an append-only list of
  extensions guarded by its own mutex (\<open>AddExtension\<close> 65-69, \<open>Extensions\<close>
  71-75), a schema slot guarded by \<open>SchemaMutex\<close>, and \<open>FieldNames\<close> (78-85)
  reads the wire names of its fields.

  \<^bold>\<open>Theories.\<close>
  \<^item> \<open>Prelude\<close>: type names (\<open>tid\<close> for a \<open>reflect.Type\<close>, \<open>ptr\<close> for a
    \<open>*TypeInfo\<close>), the panic datatype \<open>go_error\<close>, the collections \<open>reg_simps\<close>
    (evaluation of the sequential operations) and \<open>step_simps\<close> (evaluation of
    a schedule), lemmas on lists updated at one position and on maps.
  \<^item> \<open>GoTypes\<close>: type descriptors in a type environment, which is a graph, so
    recursive pointer types exist; \<open>deref\<close> is the loop of lines 31-33 as a
    \<^theory_text>\<open>partial_function (option)\<close>, \<open>None\<close> meaning it never ends, with its
    exact termination condition (\<open>deref_None_iff\<close>).
  \<^item> \<open>FieldInfo\<close>: field records, the sortable order as a \<open>linorder\<close> instance,
    \<open>sort_fields\<close> for \<open>sort.Sort\<close>, the enumerator type \<open>enumerator\<close> of
    \<open>AppendFields(fields, parentIndex, t)\<close>.  These are spec-modelled:
    \<open>field_info.go\<close> is not under \<open>src/\<close>.  Every theorem holds for every
    enumerator, which is a parameter of the operations; \<open>FieldEnum\<close> gives
    a concrete one.
  \<^item> \<open>TypeInfo\<close>: the record (the two mutexes are lock state in
    \<open>Concurrency\<close>), \<open>new_type_info\<close> (lines 40-56), \<open>field_names\<close> (the
    index loop of 78-85), \<open>append_extension\<close> (68), the schema slot.
  \<^item> \<open>Registry\<close>: the sequential semantics.  The state is the table
    \<open>type_infos\<close>, a heap of objects and the allocation limit.  The operations are
    \<open>get_type_info\<close> (29-63) and \<open>get_type_info_for_value\<close> (25-27), and the
    methods through a pointer: \<open>add_extension\<close>, \<open>get_extensions\<close>,
    \<open>field_names_of\<close> and schema access.  A datatype of client calls is run by
    \<open>exec_call\<close>/\<open>run_calls\<close>.  The theory also holds the invariant \<open>reg_wf\<close>
    and the abstract memo table \<open>memo_get\<close>/\<open>abs_reg\<close>.
  \<^item> \<open>Concurrency\<close>: goroutines with program counters (\<open>pc\<close>), one
    constructor per statement that touches shared state.  The steps are each
    lock and unlock, the map read and the map write, the allocation, and the
    read and the write of \<open>typeInfo.extensions\<close> in the \<open>append\<close>.  A
    \<open>sync.RWMutex\<close> is a reader count and a writer flag.  \<open>tstep\<close> is one step
    of one goroutine and reuses \<open>lookup_type_info\<close>, \<open>alloc\<close>,
    \<open>new_type_info\<close> and \<open>publish\<close>.  \<open>cstep\<close> is the interleaving, an
    \<^theory_text>\<open>inductive\<close> relation whose closure from \<open>init_state\<close> gives the
    reachable states; \<open>run_sched\<close> runs an explicit schedule.  A panic after
    \<open>Lock\<close> runs the deferred \<open>Unlock\<close>.
  \<^item> \<open>Solo\<close>: \<open>tsteps\<close>, one goroutine running alone for a number of steps,
    and the correspondence (\<open>to_call\<close>, \<open>ret_matches\<close>) between its calls
    and results and those of the sequential \<open>exec_call\<close>.  \<open>seq_goroutine\<close>
    is the sequential meaning of a whole goroutine program (a \<^theory_text>\<open>function\<close>
    terminating on the program's length).
  \<^item> \<open>FieldEnum\<close>: a concrete \<open>AppendFields\<close>, from spec section 6.  The input is a
    struct declaration (\<open>DStruct\<close>) or a pointer to one (\<open>elem_struct\<close>).  Tag
    parsing is a parameter \<open>wire_namer\<close>, giving a field's wire name or none
    when it is skipped.  \<open>func\<close> and \<open>chan\<close> fields are dropped
    (\<open>serializable\<close>).  \<open>enum_fields\<close> is the loop over the fields.  It
    recurses into an embedded struct at index path \<open>parent @ [i]\<close> only if
    that struct is declared and not on the current embedding path (the visited
    list), so cyclic embeddings end.  Termination is by the lexicographic
    measure (unvisited declared types, remaining fields).
  \<^item> \<open>Slices\<close>: \<open>TypeInfo.extensions\<close> as a Go slice.  A header
    (\<open>slice\<close>: backing array, length, capacity) points into a store of
    backing arrays that several headers may share.  \<open>go_append\<close> is Go's
    \<open>append\<close>: it writes in place below the capacity and otherwise
    reallocates, with a capacity from a growth rule (\<open>go_grow\<close> is the
    runtime's).  \<open>slice_get\<close>/\<open>slice_set\<close> index with Go's bounds check.
    \<open>add_extension_sl\<close> (lines 65-69) stores the result of \<open>append\<close> back
    into the field, and \<open>extensions_sl\<close> (71-75) returns the header itself.

  \<^bold>\<open>Results.\<close>  Sequential (Registry, TypeInfo):
  \<^item> identity stability for one caller (C1) and normalisation of \<open>*T\<close> (C2);
  \<^item> functional correctness (C3) and the exact termination condition (C4);
  \<^item> preservation of \<open>reg_wf\<close> by every call sequence (C5).  Besides the
    table's typing and fresh allocation, \<open>reg_wf\<close> asks of each object the
    computed \<open>Fields\<close>, and \<open>MultipleFields\<close> set only on a wire-name
    collision, as the comment of line 17 says.  It does not ask for
    \<open>MultipleFields\<close> false on a collision: that is the divergence of C27;
  \<^item> refinement of a memo table that keeps object identity (C6): the abstract
    entry of a type is the object's address with its fields, so a hit returns
    the cached object and a miss the fresh one;
  \<^item> the field order determined by the sortable order alone (C7), and
    non-struct types (C8);
  \<^item> the object built on a miss equals the one the spec prescribes
    (\<open>new_type_info_spec\<close>, with the collision pass) exactly when the wire
    names are distinct (C27);
  \<^item> \<open>FieldNames\<close> as a map (C9) and accumulation of extensions (C10).

  Concurrent (Concurrency): the invariant \<open>cinv\<close> of every reachable state
  has three parts:
  \<^item> the locks agree with the goroutines inside their sections (\<open>locks_inv\<close>);
  \<^item> every pointer a goroutine holds or has returned designates a
    well-formed object of its type (\<open>objs_inv\<close>);
  \<^item> each object's extensions are, as a multiset, the ones added by returned
    or unlocking \<open>AddExtension\<close> calls (\<open>ext_inv\<close>).

  From it follow mutual exclusion on both mutexes (C11), extension
  accounting (C13), well-formed results (C14) and deadlock freedom (C15).
  C12 exhibits, for every type with no pointer to strip and every
  enumerator, the schedule of the check-then-act race.  Two first callers
  get different objects, and an extension added through the first is
  invisible to every later caller.  C18: the table is well typed under every
  interleaving (keys are non-pointer types, and each maps to an object of
  that type).

  Between the two models (Solo):
  \<^item> one goroutine running a call without interruption, with the locks
    free, refines \<open>exec_call\<close>, panics included (C16);
  \<^item> a goroutine in the loop of a pointer chain that never ends stays in it
    under every interleaving (C17);
  \<^item> a goroutine running its whole program alone, with the locks free, reaches
    the registry and log of \<open>seq_goroutine\<close> (C28).

  Slices:
  \<^item> \<open>add_extension_sl\<close> refines the list append of \<open>append_extension\<close>
    for every growth rule (C19);
  \<^item> the result of \<open>Extensions()\<close> aliases the field: a caller's write
    through it changes the object (C20), and a caller's \<open>append\<close> to it is
    overwritten by the next \<open>AddExtension\<close> when capacity is spare (C21).

  Enumerator (FieldEnum), through the \<open>Fields\<close> that \<open>computed_fields\<close>
  (lines 51-55) builds with it:
  \<^item> each entry comes from a serializable field of the type's struct or
    of a declared struct, with its wire name and type (C22);
  \<^item> the index paths are distinct and non-empty (C23);
  \<^item> their length is bounded by the number of declared types, cyclic
    embeddings included (C24);
  \<^item> on a struct without embedded fields they are the sorted reference
    \<open>direct_fields\<close> (C25);
  \<^item> the \<open>Fields\<close> of a \<open>GetTypeInfo\<close> result are strictly sorted (C26).

  \<^bold>\<open>Errors and divergence.\<close>  A call that never returns is \<open>None\<close>: only the
  pointer-stripping loop can diverge.  A panic is \<open>Inl NilDereference\<close> in the
  sequential model and the program counter \<open>Panicked\<close> in the concurrent one: a
  nil receiver, or the nil \<open>reflect.Type\<close> of \<open>GetTypeInfoForValue(nil)\<close>.
  An index outside a slice's length is \<open>Inl IndexOutOfRange\<close>.
  There is no fuel.  Schedules and example environments are finite and
  explicit, and the witnesses evaluate them by \<open>simp\<close>.

  \<^bold>\<open>Not modelled.\<close>
  \<^item> The \<open>reflect\<close> package beyond \<open>Kind\<close> and \<open>Elem\<close>, the JSON encoder and
    decoder that consume \<open>TypeInfo\<close>, and the content of extensions and
    schemas (type parameters \<open>'e\<close>, \<open>'s\<close>).
  \<^item> \<open>SchemaMutex\<close>: \<open>src/\<close> only declares it, and its users, the schema
    builder, are not in \<open>src/\<close>.  The schema slot is modelled sequentially.
  \<^item> The syntax of \<open>json\<close> struct tags: the enumerator takes the wire name a
    tag gives as the parameter \<open>wire_namer\<close>.
  \<^item> A nil \<open>reflect.Type\<close> passed to \<open>GetTypeInfo\<close> directly: type
    identifiers are never nil, so the panic of \<open>t.Kind()\<close> on a nil type is
    modelled only where the nil type arises, in \<open>get_type_info_for_value\<close>.
  \<^item> Go's writer preference in \<open>RWMutex\<close>.  Leaving it out only adds
    schedules, so the safety results hold.
  \<^item> The runtime's choice of a new capacity: the theorems on slices hold for
    every growth rule; \<open>go_grow\<close> (Go's rule without the rounding to a size
    class) only serves as the concrete rule of the examples.
  \<^item> The slice model and the concurrent model are separate: the concurrent
    steps keep \<open>extensions\<close> as a list, so a caller's writes through an
    aliased slice racing with \<open>AddExtension\<close> are not modelled.
  Every function of \<open>src/jsoninfo/type_info.go\<close> is a definition of the
  library.  The enumerator and the sortable order are modelled from the spec
  because \<open>field_info.go\<close> is not under \<open>src/\<close>.
\<close>

end
